theory Spec2Isabelle
  imports
    Complex_Main
    "HOL-Library.Char_ord"
    "HOL-Library.List_Lexorder"
    "HOL-Library.Product_Lexorder"
begin

section \<open>Errors\<close>

text \<open>
  The exceptions of the sources are values. \<open>NotValid\<close> and \<open>NotImplemented\<close> are the
  exception classes thrown in \<^verbatim>\<open>UnitaryTableau.cpp\<close> and \<^verbatim>\<open>Replacement.cpp\<close>, with their
  message; \<open>out_of_range\<close> is what \<^verbatim>\<open>std::vector::at\<close> and \<^verbatim>\<open>bimap::at\<close> throw, and
  stands for a failed index assertion of the matrix library; \<open>logic_error\<close> is
  \<^verbatim>\<open>std::logic_error\<close>.
  \<open>NotCliffordGate\<close> and \<open>InvalidVertex\<close> are error kinds of the specification (section 7)
  that no source file throws.
\<close>

datatype error =
    NotValid string
  | NotImplemented string
  | out_of_range
  | logic_error string
  | NotCliffordGate
  | InvalidVertex

definition and_then :: "error + 'a \<Rightarrow> ('a \<Rightarrow> error + 'b) \<Rightarrow> error + 'b" where
  "and_then r f = (case r of Inl e \<Rightarrow> Inl e | Inr x \<Rightarrow> f x)"

fun run_all :: "('s \<Rightarrow> error + 's) list \<Rightarrow> 's \<Rightarrow> error + 's" where
  "run_all [] s = Inr s"
| "run_all (f # fs) s = and_then (f s) (run_all fs)"

text \<open>The results of a loop that pushes one value per step, up to the first exception.\<close>

fun collect :: "(error + 'a) list \<Rightarrow> error + 'a list" where
  "collect [] = Inr []"
| "collect (r # rs) = and_then r (\<lambda>x. and_then (collect rs) (\<lambda>xs. Inr (x # xs)))"

section \<open>Gate catalog\<close>

text \<open>
  The enumeration \<^verbatim>\<open>OpType\<close>; its declaration is not among the sources, the members are
  the catalog names of the specification (section 6), which cover every member that
  \<^verbatim>\<open>UnitaryTableau.cpp\<close>, \<^verbatim>\<open>Replacement.cpp\<close> and the tests mention.
\<close>

datatype OpType =
    OpType_X | OpType_Y | OpType_Z | OpType_H | OpType_S | OpType_Sdg | OpType_T | OpType_Tdg
  | OpType_V | OpType_Vdg | OpType_SX | OpType_SXdg | OpType_Rx | OpType_Ry | OpType_Rz
  | OpType_U1 | OpType_U2 | OpType_U3 | OpType_tk1 | OpType_PhasedX
  | OpType_CX | OpType_CY | OpType_CZ | OpType_CH | OpType_CV | OpType_CVdg | OpType_CSX
  | OpType_CSXdg | OpType_CRz | OpType_CRx | OpType_CRy | OpType_CU1 | OpType_CU3
  | OpType_SWAP | OpType_CSWAP | OpType_BRIDGE | OpType_ECR | OpType_ISWAP
  | OpType_XXPhase | OpType_YYPhase | OpType_ZZPhase | OpType_ZZMax | OpType_XXPhase3
  | OpType_CnRy | OpType_CnX | OpType_CCX | OpType_ESWAP | OpType_FSim | OpType_Sycamore
  | OpType_ISWAPMax | OpType_PhasedISWAP | OpType_PhaseGadget
  | OpType_Measure | OpType_Collapse | OpType_noop | OpType_Barrier

text \<open>
  Modelled from the spec: the name column of \<^verbatim>\<open>optypeinfo()\<close>, a table that is not among
  the sources; the names are the catalog names of section 6.
\<close>

definition optypeinfo_name :: "OpType \<Rightarrow> string" where
  "optypeinfo_name t =
     (case t of
        OpType_X \<Rightarrow> ''X''
      | OpType_Y \<Rightarrow> ''Y''
      | OpType_Z \<Rightarrow> ''Z''
      | OpType_H \<Rightarrow> ''H''
      | OpType_S \<Rightarrow> ''S''
      | OpType_Sdg \<Rightarrow> ''Sdg''
      | OpType_T \<Rightarrow> ''T''
      | OpType_Tdg \<Rightarrow> ''Tdg''
      | OpType_V \<Rightarrow> ''V''
      | OpType_Vdg \<Rightarrow> ''Vdg''
      | OpType_SX \<Rightarrow> ''SX''
      | OpType_SXdg \<Rightarrow> ''SXdg''
      | OpType_Rx \<Rightarrow> ''Rx''
      | OpType_Ry \<Rightarrow> ''Ry''
      | OpType_Rz \<Rightarrow> ''Rz''
      | OpType_U1 \<Rightarrow> ''U1''
      | OpType_U2 \<Rightarrow> ''U2''
      | OpType_U3 \<Rightarrow> ''U3''
      | OpType_tk1 \<Rightarrow> ''tk1''
      | OpType_PhasedX \<Rightarrow> ''PhasedX''
      | OpType_CX \<Rightarrow> ''CX''
      | OpType_CY \<Rightarrow> ''CY''
      | OpType_CZ \<Rightarrow> ''CZ''
      | OpType_CH \<Rightarrow> ''CH''
      | OpType_CV \<Rightarrow> ''CV''
      | OpType_CVdg \<Rightarrow> ''CVdg''
      | OpType_CSX \<Rightarrow> ''CSX''
      | OpType_CSXdg \<Rightarrow> ''CSXdg''
      | OpType_CRz \<Rightarrow> ''CRz''
      | OpType_CRx \<Rightarrow> ''CRx''
      | OpType_CRy \<Rightarrow> ''CRy''
      | OpType_CU1 \<Rightarrow> ''CU1''
      | OpType_CU3 \<Rightarrow> ''CU3''
      | OpType_SWAP \<Rightarrow> ''SWAP''
      | OpType_CSWAP \<Rightarrow> ''CSWAP''
      | OpType_BRIDGE \<Rightarrow> ''BRIDGE''
      | OpType_ECR \<Rightarrow> ''ECR''
      | OpType_ISWAP \<Rightarrow> ''ISWAP''
      | OpType_XXPhase \<Rightarrow> ''XXPhase''
      | OpType_YYPhase \<Rightarrow> ''YYPhase''
      | OpType_ZZPhase \<Rightarrow> ''ZZPhase''
      | OpType_ZZMax \<Rightarrow> ''ZZMax''
      | OpType_XXPhase3 \<Rightarrow> ''XXPhase3''
      | OpType_CnRy \<Rightarrow> ''CnRy''
      | OpType_CnX \<Rightarrow> ''CnX''
      | OpType_CCX \<Rightarrow> ''CCX''
      | OpType_ESWAP \<Rightarrow> ''ESWAP''
      | OpType_FSim \<Rightarrow> ''FSim''
      | OpType_Sycamore \<Rightarrow> ''Sycamore''
      | OpType_ISWAPMax \<Rightarrow> ''ISWAPMax''
      | OpType_PhasedISWAP \<Rightarrow> ''PhasedISWAP''
      | OpType_PhaseGadget \<Rightarrow> ''PhaseGadget''
      | OpType_Measure \<Rightarrow> ''Measure''
      | OpType_Collapse \<Rightarrow> ''Collapse''
      | OpType_noop \<Rightarrow> ''noop''
      | OpType_Barrier \<Rightarrow> ''Barrier'')"

section \<open>Qubit names and the two-way qubit map\<close>

text \<open>
  A \<^verbatim>\<open>Qubit\<close> is a unit identifier: a register name and an index vector, ordered
  lexicographically. \<^verbatim>\<open>Qubit(i)\<close> is index \<open>i\<close> of the default register \<^verbatim>\<open>q\<close>.
\<close>

type_synonym qubit = "string \<times> nat list"

definition Qubit :: "nat \<Rightarrow> qubit" where
  "Qubit i = (''q'', [i])"

text \<open>
  \<^verbatim>\<open>boost::bimap<Qubit, unsigned>\<close>: both sides are sets, so \<^verbatim>\<open>insert\<close> does nothing
  when the qubit or the index is already bound. \<^verbatim>\<open>left.at\<close> and \<^verbatim>\<open>right.at\<close> throw
  \<^verbatim>\<open>std::out_of_range\<close> on a missing key.
\<close>

type_synonym qubit_bimap = "(qubit \<times> nat) list"

definition bimap_insert :: "qubit \<times> nat \<Rightarrow> qubit_bimap \<Rightarrow> qubit_bimap" where
  "bimap_insert p m =
     (if fst p \<in> fst ` set m \<or> snd p \<in> snd ` set m then m else m @ [p])"

definition left_find :: "qubit_bimap \<Rightarrow> qubit \<Rightarrow> nat option" where
  "left_find m q = map_of m q"

definition left_at :: "qubit_bimap \<Rightarrow> qubit \<Rightarrow> error + nat" where
  "left_at m q = (case map_of m q of None \<Rightarrow> Inl out_of_range | Some i \<Rightarrow> Inr i)"

definition right_at :: "qubit_bimap \<Rightarrow> nat \<Rightarrow> error + qubit" where
  "right_at m i =
     (case map_of (map (\<lambda>(q, j). (j, q)) m) i of None \<Rightarrow> Inl out_of_range | Some q \<Rightarrow> Inr q)"

definition vec_at :: "'a list \<Rightarrow> nat \<Rightarrow> error + 'a" where
  "vec_at xs i = (if i < length xs then Inr (xs ! i) else Inl out_of_range)"

section \<open>Boolean matrices and the symplectic tableau\<close>

text \<open>
  \<^verbatim>\<open>MatrixXb\<close> is a list of rows, \<^verbatim>\<open>VectorXb\<close> a list of bits. The comma initialiser
  \<^verbatim>\<open>m << a, b\<close> with two blocks of full width stacks \<open>a\<close> above \<open>b\<close>, which is \<open>a @ b\<close>.
  A matrix without rows has no columns here. Sizes are natural numbers: the \<^verbatim>\<open>unsigned\<close>
  product \<^verbatim>\<open>2 * n\<close> of the source wraps only for tableaux of more than \<open>2\<^sup>3\<^sup>1\<close> rows.
\<close>

type_synonym MatrixXb = "bool list list"
type_synonym VectorXb = "bool list"

definition rows :: "MatrixXb \<Rightarrow> nat" where
  "rows m = length m"

definition cols :: "MatrixXb \<Rightarrow> nat" where
  "cols m = (case m of [] \<Rightarrow> 0 | r # _ \<Rightarrow> length r)"

definition MatrixXb_Identity :: "nat \<Rightarrow> nat \<Rightarrow> MatrixXb" where
  "MatrixXb_Identity r c = map (\<lambda>i. map (\<lambda>j. i = j) [0..<c]) [0..<r]"

definition MatrixXb_Zero :: "nat \<Rightarrow> nat \<Rightarrow> MatrixXb" where
  "MatrixXb_Zero r c = replicate r (replicate c False)"

definition VectorXb_Zero :: "nat \<Rightarrow> VectorXb" where
  "VectorXb_Zero n = replicate n False"

record SymplecticTableau =
  xmat :: MatrixXb
  zmat :: MatrixXb
  phase :: VectorXb

text \<open>
  Modelled from the spec: the constructor \<^verbatim>\<open>SymplecticTableau(xmat, zmat, phase)\<close>, whose
  file is not among the sources. Section 7: tableau construction that receives malformed
  matrices fails with \<open>NotValid\<close>; otherwise the three components are stored as given.
\<close>

definition SymplecticTableau_mats ::
    "MatrixXb \<Rightarrow> MatrixXb \<Rightarrow> VectorXb \<Rightarrow> error + SymplecticTableau" where
  "SymplecticTableau_mats xm zm ph =
     (if rows zm \<noteq> rows xm \<or> length ph \<noteq> rows xm \<or> cols zm \<noteq> cols xm
      then Inl (NotValid ''Tableau requires equally-sized components.'')
      else Inr \<lparr>xmat = xm, zmat = zm, phase = ph\<rparr>)"

section \<open>The unitary tableau\<close>

record UnitaryTableau =
  tab :: SymplecticTableau
  qubits :: qubit_bimap

definition default_qubits :: "nat \<Rightarrow> qubit_bimap" where
  "default_qubits n = foldl (\<lambda>m i. bimap_insert (Qubit i, i) m) [] [0..<n]"

text \<open>\<^verbatim>\<open>UnitaryTableau::UnitaryTableau(unsigned n)\<close>, lines 21 to 31.\<close>

definition UnitaryTableau_n :: "nat \<Rightarrow> error + UnitaryTableau" where
  "UnitaryTableau_n n =
     and_then
       (SymplecticTableau_mats
          (MatrixXb_Identity n n @ MatrixXb_Zero n n)
          (MatrixXb_Zero n n @ MatrixXb_Identity n n)
          (VectorXb_Zero (2 * n)))
       (\<lambda>t. Inr \<lparr>tab = t, qubits = default_qubits n\<rparr>)"

text \<open>\<^verbatim>\<open>UnitaryTableau::UnitaryTableau(const qubit_vector_t& qbs)\<close>, lines 33 to 39.\<close>

definition UnitaryTableau_qbs :: "qubit list \<Rightarrow> error + UnitaryTableau" where
  "UnitaryTableau_qbs qbs =
     and_then (UnitaryTableau_n (length qbs))
       (\<lambda>u. Inr (u\<lparr>qubits :=
          foldl (\<lambda>m i. bimap_insert (qbs ! i, i) m) [] [0..<length qbs]\<rparr>))"

text \<open>
  \<^verbatim>\<open>UnitaryTableau::UnitaryTableau(xx, xz, xph, zx, zz, zph)\<close>, lines 41 to 64. The size
  test is the source's; line 56 reads \<^verbatim>\<open>zmat << zx, zz\<close>, and so does the model.
\<close>

definition UnitaryTableau_mats ::
    "MatrixXb \<Rightarrow> MatrixXb \<Rightarrow> VectorXb \<Rightarrow> MatrixXb \<Rightarrow> MatrixXb \<Rightarrow> VectorXb
     \<Rightarrow> error + UnitaryTableau" where
  "UnitaryTableau_mats xx xz xph zx zz zph =
     (let n_qubits = rows xx in
      if cols xx \<noteq> n_qubits \<or> rows xz \<noteq> n_qubits \<or>
         cols xz \<noteq> n_qubits \<or> length xph \<noteq> n_qubits \<or>
         rows zx \<noteq> n_qubits \<or> cols zx \<noteq> n_qubits \<or>
         rows zz \<noteq> n_qubits \<or> cols zz \<noteq> n_qubits \<or>
         length zph \<noteq> n_qubits
      then Inl (NotValid
        ''Unitary tableau requires equally-sized square matrices and vectors'')
      else
        and_then (SymplecticTableau_mats (xx @ zx) (zx @ zz) (xph @ zph))
          (\<lambda>t. Inr \<lparr>tab = t, qubits = default_qubits n_qubits\<rparr>))"

subsection \<open>Gates at the front\<close>

text \<open>
  \<^verbatim>\<open>SymplecticTableau::row_mult(unsigned, unsigned, Complex)\<close> is not among the sources;
  the functions below, lines 136 to 162, take it as the parameter \<open>rm\<close>. The second call
  of \<^verbatim>\<open>apply_CX_at_front\<close> leaves the coefficient to the default argument of the
  declaration, which the specification gives as 1.
\<close>

type_synonym row_mult_t = "SymplecticTableau \<Rightarrow> nat \<Rightarrow> nat \<Rightarrow> complex \<Rightarrow> SymplecticTableau"

definition apply_S_at_front ::
    "row_mult_t \<Rightarrow> qubit \<Rightarrow> UnitaryTableau \<Rightarrow> error + UnitaryTableau" where
  "apply_S_at_front rm qb u =
     and_then (left_at (qubits u) qb)
       (\<lambda>uqb. Inr (u\<lparr>tab := rm (tab u) (uqb + length (qubits u)) uqb \<i>\<rparr>))"

definition apply_V_at_front ::
    "row_mult_t \<Rightarrow> qubit \<Rightarrow> UnitaryTableau \<Rightarrow> error + UnitaryTableau" where
  "apply_V_at_front rm qb u =
     and_then (left_at (qubits u) qb)
       (\<lambda>uqb. Inr (u\<lparr>tab := rm (tab u) uqb (uqb + length (qubits u)) \<i>\<rparr>))"

definition apply_CX_at_front ::
    "row_mult_t \<Rightarrow> qubit \<Rightarrow> qubit \<Rightarrow> UnitaryTableau \<Rightarrow> error + UnitaryTableau" where
  "apply_CX_at_front rm control target u =
     and_then (left_at (qubits u) control) (\<lambda>uc.
     and_then (left_at (qubits u) target) (\<lambda>ut.
       let n = length (qubits u);
           t1 = rm (tab u) ut uc 1;
           t2 = rm t1 (uc + n) (ut + n) 1
       in Inr (u\<lparr>tab := t2\<rparr>)))"

text \<open>The gate types that the switch of \<^verbatim>\<open>apply_gate_at_front\<close> has a case for.\<close>

definition front_cases :: "OpType list" where
  "front_cases =
     [OpType_Z, OpType_X, OpType_Y, OpType_S, OpType_Sdg, OpType_V, OpType_Vdg, OpType_H,
      OpType_CX, OpType_CY, OpType_CZ, OpType_SWAP, OpType_BRIDGE, OpType_noop]"

text \<open>
  \<^verbatim>\<open>UnitaryTableau::apply_gate_at_front\<close>, lines 171 to 258. \<open>nm\<close> is the name column of
  \<^verbatim>\<open>optypeinfo()\<close>, a table that is not among the sources. \<open>S k\<close>, \<open>V k\<close> and \<open>CX j k\<close>
  read \<^verbatim>\<open>qbs.at(k)\<close> and then call the generator.
\<close>

definition apply_gate_at_front ::
    "(OpType \<Rightarrow> string) \<Rightarrow> row_mult_t \<Rightarrow> OpType \<Rightarrow> qubit list \<Rightarrow> UnitaryTableau
     \<Rightarrow> error + UnitaryTableau" where
  "apply_gate_at_front nm rm type qbs =
     (let S = (\<lambda>k u. and_then (vec_at qbs k) (\<lambda>q. apply_S_at_front rm q u));
          V = (\<lambda>k u. and_then (vec_at qbs k) (\<lambda>q. apply_V_at_front rm q u));
          CX = (\<lambda>j k u. and_then (vec_at qbs j) (\<lambda>c.
                        and_then (vec_at qbs k) (\<lambda>t. apply_CX_at_front rm c t u)))
      in case type of
        OpType_Z \<Rightarrow> run_all [S 0, S 0]
      | OpType_X \<Rightarrow> run_all [V 0, V 0]
      | OpType_Y \<Rightarrow> run_all [S 0, S 0, V 0, V 0]
      | OpType_S \<Rightarrow> run_all [S 0]
      | OpType_Sdg \<Rightarrow> run_all [S 0, S 0, S 0]
      | OpType_V \<Rightarrow> run_all [V 0]
      | OpType_Vdg \<Rightarrow> run_all [V 0, V 0, V 0]
      | OpType_H \<Rightarrow> run_all [S 0, V 0, S 0]
      | OpType_CX \<Rightarrow> run_all [CX 0 1]
      | OpType_CY \<Rightarrow> run_all [V 1, V 1, V 1, CX 0 1, V 1]
      | OpType_CZ \<Rightarrow> run_all [S 1, V 1, S 1, CX 0 1, S 1, V 1, S 1]
      | OpType_SWAP \<Rightarrow> run_all [CX 0 1, CX 1 0, CX 0 1]
      | OpType_BRIDGE \<Rightarrow> run_all [CX 0 2]
      | OpType_noop \<Rightarrow> run_all []
      | _ \<Rightarrow> (\<lambda>u. Inl (NotValid (nm type @
          '' cannot be applied to a UnitaryTableau; it is not a Clifford gate''))))"

section \<open>Pauli strings\<close>

text \<open>
  The declarations of \<^verbatim>\<open>Pauli\<close>, \<^verbatim>\<open>PauliStabiliser\<close>, \<^verbatim>\<open>QubitPauliString\<close> and
  \<^verbatim>\<open>QubitPauliTensor\<close> are not among the sources. \<^verbatim>\<open>UnitaryTableau.cpp\<close> uses a
  stabiliser as a vector of Paulis with a Boolean sign (\<^verbatim>\<open>if (!stab.coeff) coeff *= -1.\<close>:
  true is \<open>+1\<close>), and a tensor as a \<^verbatim>\<open>std::map\<close> from qubits to Paulis with a complex
  coefficient. The map is an association list in ascending key order.
\<close>

datatype Pauli = Pauli_I | Pauli_X | Pauli_Y | Pauli_Z

type_synonym PauliStabiliser = "Pauli list \<times> bool"
type_synonym QubitPauliMap = "(qubit \<times> Pauli) list"
type_synonym QubitPauliTensor = "QubitPauliMap \<times> complex"

text \<open>
  Modelled from the spec: the Pauli product table (section 9, a 4 by 4 lookup):
  \<open>mult_matrix p q = (c, r)\<close> when \<open>p \<cdot> q = c r\<close>.
\<close>

fun mult_matrix :: "Pauli \<Rightarrow> Pauli \<Rightarrow> complex \<times> Pauli" where
  "mult_matrix Pauli_I q = (1, q)"
| "mult_matrix p Pauli_I = (1, p)"
| "mult_matrix Pauli_X Pauli_X = (1, Pauli_I)"
| "mult_matrix Pauli_X Pauli_Y = (\<i>, Pauli_Z)"
| "mult_matrix Pauli_X Pauli_Z = (- \<i>, Pauli_Y)"
| "mult_matrix Pauli_Y Pauli_X = (- \<i>, Pauli_Z)"
| "mult_matrix Pauli_Y Pauli_Y = (1, Pauli_I)"
| "mult_matrix Pauli_Y Pauli_Z = (\<i>, Pauli_X)"
| "mult_matrix Pauli_Z Pauli_X = (\<i>, Pauli_Y)"
| "mult_matrix Pauli_Z Pauli_Y = (- \<i>, Pauli_X)"
| "mult_matrix Pauli_Z Pauli_Z = (1, Pauli_I)"

text \<open>
  Modelled from the spec: the product of two tensors, \<^verbatim>\<open>operator*\<close> of
  \<^verbatim>\<open>QubitPauliTensor\<close>, whose file is not among the sources. The two maps are merged in
  key order; on a common qubit the Paulis are multiplied by the table, the factor goes to
  the coefficient, and an identity that results is not stored.
\<close>

fun map_mult :: "QubitPauliMap \<Rightarrow> QubitPauliMap \<Rightarrow> QubitPauliMap \<times> complex" where
  "map_mult [] ys = (ys, 1)"
| "map_mult (x # xs) [] = (x # xs, 1)"
| "map_mult ((q1, p1) # xs) ((q2, p2) # ys) =
     (if q2 < q1 then
        (case map_mult ((q1, p1) # xs) ys of (r, c) \<Rightarrow> ((q2, p2) # r, c))
      else if q2 = q1 then
        (case map_mult xs ys of (r, c) \<Rightarrow>
           ((if snd (mult_matrix p1 p2) = Pauli_I then r
             else (q1, snd (mult_matrix p1 p2)) # r),
            fst (mult_matrix p1 p2) * c))
      else
        (case map_mult xs ((q2, p2) # ys) of (r, c) \<Rightarrow> ((q1, p1) # r, c)))"

definition tensor_mult :: "QubitPauliTensor \<Rightarrow> QubitPauliTensor \<Rightarrow> QubitPauliTensor" where
  "tensor_mult a b =
     (case map_mult (fst a) (fst b) of (r, c) \<Rightarrow> (r, snd a * snd b * c))"

text \<open>
  Modelled from the spec: \<^verbatim>\<open>QubitPauliString(qubits, paulis)\<close>, which inserts the pairs
  into the map one by one: a length mismatch or a repeated qubit is a \<^verbatim>\<open>std::logic_error\<close>.
\<close>

fun QubitPauliString_list :: "qubit list \<Rightarrow> Pauli list \<Rightarrow> QubitPauliMap \<Rightarrow> error + QubitPauliMap" where
  "QubitPauliString_list [] [] m = Inr m"
| "QubitPauliString_list (q # qs) (p # ps) m =
     (if q \<in> fst ` set m
      then Inl (logic_error ''Non-unique Qubit inserted into QubitPauliString map'')
      else QubitPauliString_list qs ps (insort_key fst (q, p) m))"
| "QubitPauliString_list _ _ m =
     Inl (logic_error ''Mismatch of Qubits and Paulis upon QubitPauliString construction'')"

section \<open>Rows of the symplectic tableau\<close>

text \<open>
  Modelled from the spec: \<^verbatim>\<open>SymplecticTableau::get_pauli\<close> (section 4.E: the stabiliser
  of a row as a Pauli string and a sign). The bits \<open>(x, z)\<close> of a cell are I for (0, 0),
  X for (1, 0), Z for (0, 1) and Y for (1, 1); the sign is \<open>+1\<close> when the phase bit is 0,
  as in the identity tableau of \<^verbatim>\<open>UnitaryTableau(n)\<close>.
\<close>

definition to_pauli :: "bool \<Rightarrow> bool \<Rightarrow> Pauli" where
  "to_pauli x z =
     (if x then (if z then Pauli_Y else Pauli_X) else (if z then Pauli_Z else Pauli_I))"

definition get_pauli :: "SymplecticTableau \<Rightarrow> nat \<Rightarrow> error + PauliStabiliser" where
  "get_pauli t i =
     (if i < length (xmat t) \<and> i < length (zmat t) \<and> i < length (phase t)
      then Inr (map2 to_pauli (xmat t ! i) (zmat t ! i), \<not> phase t ! i)
      else Inl out_of_range)"

text \<open>
  Modelled from the spec: the constructor \<^verbatim>\<open>SymplecticTableau(PauliStabiliserList)\<close>, the
  inverse of \<^verbatim>\<open>get_pauli\<close> row by row; rows of different lengths are malformed
  (\<open>NotValid\<close>, section 7).
\<close>

definition SymplecticTableau_rows :: "PauliStabiliser list \<Rightarrow> error + SymplecticTableau" where
  "SymplecticTableau_rows rs =
     (let n_qubits = (case rs of [] \<Rightarrow> 0 | r # _ \<Rightarrow> length (fst r)) in
      if list_ex (\<lambda>r. length (fst r) \<noteq> n_qubits) rs
      then Inl (NotValid ''Tableau must be constructed from Paulis of the same length.'')
      else Inr \<lparr>xmat = map (\<lambda>r. map (\<lambda>p. p = Pauli_X \<or> p = Pauli_Y) (fst r)) rs,
                zmat = map (\<lambda>r. map (\<lambda>p. p = Pauli_Z \<or> p = Pauli_Y) (fst r)) rs,
                phase = map (\<lambda>r. \<not> snd r) rs\<rparr>)"

text \<open>
  Modelled from the spec: \<^verbatim>\<open>SymplecticTableau::row_mult\<close>, whose file is not among the
  sources (section 4.E: one row is multiplied into another, and the phase follows the
  Pauli product rules). \<open>row_mult t a w coeff\<close> stores in row \<open>w\<close> the operator product
  \<open>coeff \<cdot> row w \<cdot> row a\<close> and leaves every other row: the bits of the two rows are added
  modulo 2, and the new phase bit says whether the factor that the signs of the rows, the
  coefficient and the product table of \<open>mult_matrix\<close> give cell by cell is \<open>-1\<close>.

  Of the two rows, section 4.E names the one that is updated first, and section 4.F
  passes it second: S at the front of qubit \<open>q\<close> is \<^verbatim>\<open>row_mult(q + n, q, i)\<close>, and S alters
  the image of X, which is row \<open>q\<close>. The model follows section 4.F, as do the calls of the
  ten-argument form at lines 315 to 371, whose output is their second operand, and the
  case \<^verbatim>\<open>OpType::Z\<close> of the switch, S at the front twice, which has to keep the image of Z.
  The product is taken as section 4.E words it, the other row multiplied into the updated
  one, so the updated row is the left factor; no source states the order. It decides
  between a gate and its inverse: with the factors exchanged (\<open>row_mult_left\<close> below) the
  calls of lines 136 to 148 are the inverses of S and V.
\<close>

definition row_mult_rows ::
    "bool list \<Rightarrow> bool list \<Rightarrow> bool \<Rightarrow> bool list \<Rightarrow> bool list \<Rightarrow> bool \<Rightarrow> complex
     \<Rightarrow> bool list \<times> bool list \<times> bool" where
  "row_mult_rows xa za pa xw zw pw coeff =
     (let ph = coeff * (if pw then - 1 else 1) * (if pa then - 1 else 1) *
               prod_list (map2 (\<lambda>w a. fst (mult_matrix w a))
                            (map2 to_pauli xw zw) (map2 to_pauli xa za))
      in (map2 (\<lambda>w a. w \<noteq> a) xw xa, map2 (\<lambda>w a. w \<noteq> a) zw za, ph = - 1))"

definition row_mult :: "SymplecticTableau \<Rightarrow> nat \<Rightarrow> nat \<Rightarrow> complex \<Rightarrow> SymplecticTableau" where
  "row_mult t a w coeff =
     (case row_mult_rows (xmat t ! a) (zmat t ! a) (phase t ! a)
                         (xmat t ! w) (zmat t ! w) (phase t ! w) coeff of
        (xw, zw, pw) \<Rightarrow>
          \<lparr>xmat = (xmat t)[w := xw], zmat = (zmat t)[w := zw], phase = (phase t)[w := pw]\<rparr>)"

text \<open>
  The same with the factors exchanged, \<open>coeff \<cdot> row a \<cdot> row w\<close> stored in row \<open>w\<close>; it serves
  only to show what the order of the factors decides.
\<close>

definition row_mult_left :: "SymplecticTableau \<Rightarrow> nat \<Rightarrow> nat \<Rightarrow> complex \<Rightarrow> SymplecticTableau" where
  "row_mult_left t a w coeff =
     (case row_mult_rows (xmat t ! w) (zmat t ! w) (phase t ! w)
                         (xmat t ! a) (zmat t ! a) (phase t ! a) coeff of
        (xw, zw, pw) \<Rightarrow>
          \<lparr>xmat = (xmat t)[w := xw], zmat = (zmat t)[w := zw], phase = (phase t)[w := pw]\<rparr>)"

section \<open>Rows of the unitary tableau and composition\<close>

text \<open>\<^verbatim>\<open>UnitaryTableau::get_xrow\<close> and \<^verbatim>\<open>get_zrow\<close>, lines 66 to 90.\<close>

definition row_tensor :: "UnitaryTableau \<Rightarrow> nat \<Rightarrow> error + QubitPauliTensor" where
  "row_tensor u r =
     and_then (get_pauli (tab u) r) (\<lambda>stab.
     and_then (collect (map (right_at (qubits u)) [0..<length (qubits u)])) (\<lambda>qbs.
     and_then (QubitPauliString_list qbs (fst stab) []) (\<lambda>m.
       Inr (m, if snd stab then 1 else - 1))))"

definition get_xrow :: "UnitaryTableau \<Rightarrow> qubit \<Rightarrow> error + QubitPauliTensor" where
  "get_xrow u qb = and_then (left_at (qubits u) qb) (\<lambda>uq. row_tensor u uq)"

definition get_zrow :: "UnitaryTableau \<Rightarrow> qubit \<Rightarrow> error + QubitPauliTensor" where
  "get_zrow u qb =
     and_then (left_at (qubits u) qb) (\<lambda>uqb. row_tensor u (uqb + length (qubits u)))"

text \<open>\<^verbatim>\<open>UnitaryTableau::get_row_product\<close>, lines 92 to 124: the loop over the map.\<close>

fun row_product_loop ::
    "UnitaryTableau \<Rightarrow> QubitPauliMap \<Rightarrow> QubitPauliTensor \<Rightarrow> error + QubitPauliTensor" where
  "row_product_loop u [] result = Inr result"
| "row_product_loop u ((q, p) # rest) result =
     (case left_find (qubits u) q of
        None \<Rightarrow> row_product_loop u rest (tensor_mult result ([(q, p)], 1))
      | Some _ \<Rightarrow>
         (case p of
            Pauli_I \<Rightarrow> row_product_loop u rest result
          | Pauli_X \<Rightarrow>
              and_then (get_xrow u q) (\<lambda>rx.
                row_product_loop u rest (tensor_mult result rx))
          | Pauli_Y \<Rightarrow>
              and_then (get_xrow u q) (\<lambda>rx.
              and_then (get_zrow u q) (\<lambda>rz.
                case tensor_mult (tensor_mult result rx) rz of
                  (m, c) \<Rightarrow> row_product_loop u rest (m, c * \<i>)))
          | Pauli_Z \<Rightarrow>
              and_then (get_zrow u q) (\<lambda>rz.
                row_product_loop u rest (tensor_mult result rz))))"

definition get_row_product :: "UnitaryTableau \<Rightarrow> QubitPauliTensor \<Rightarrow> error + QubitPauliTensor" where
  "get_row_product u qpt = row_product_loop u (fst qpt) ([], snd qpt)"

text \<open>\<^verbatim>\<open>UnitaryTableau::get_qubits\<close>, lines 126 to 134: a \<^verbatim>\<open>std::set\<close>, in ascending order.\<close>

definition get_qubits :: "UnitaryTableau \<Rightarrow> qubit list" where
  "get_qubits u = sorted_list_of_set (fst ` set (qubits u))"

text \<open>
  \<^verbatim>\<open>UnitaryTableau::compose\<close>, lines 392 to 450. \<open>compose_row\<close> is the body of the two
  loops over the qubits, \<open>to_stabiliser\<close> the body of the loop that turns a tensor into a
  stabiliser over the qubit numbering of the result. \<^verbatim>\<open>UnitaryTableau({})\<close> is the empty
  tableau, whether the braces are read as the number 0 or as the empty qubit vector.
\<close>

definition compose_row ::
    "(UnitaryTableau \<Rightarrow> qubit \<Rightarrow> error + QubitPauliTensor) \<Rightarrow> UnitaryTableau \<Rightarrow> UnitaryTableau
     \<Rightarrow> qubit \<Rightarrow> error + QubitPauliTensor" where
  "compose_row get_row first second qi =
     (case left_find (qubits first) qi of
        None \<Rightarrow> get_row second qi
      | Some _ \<Rightarrow> and_then (get_row first qi) (get_row_product second))"

fun fill_paulis :: "qubit_bimap \<Rightarrow> QubitPauliMap \<Rightarrow> Pauli list \<Rightarrow> error + Pauli list" where
  "fill_paulis qm [] ps = Inr ps"
| "fill_paulis qm ((q, p) # rest) ps =
     and_then (left_at qm q) (\<lambda>i. fill_paulis qm rest (ps[i := p]))"

definition to_stabiliser :: "qubit_bimap \<Rightarrow> nat \<Rightarrow> QubitPauliTensor \<Rightarrow> error + PauliStabiliser" where
  "to_stabiliser qm nqb row =
     (if snd row \<noteq> 1 \<and> snd row \<noteq> - 1
      then Inl (NotValid ''Coefficient error in Tableau composition'')
      else and_then (fill_paulis qm (fst row) (replicate nqb Pauli_I))
             (\<lambda>ps. Inr (ps, snd row = 1)))"

definition compose :: "UnitaryTableau \<Rightarrow> UnitaryTableau \<Rightarrow> error + UnitaryTableau" where
  "compose first second =
     (let qbs = sorted_list_of_set (set (get_qubits first) \<union> set (get_qubits second));
          nqb = length qbs
      in
      and_then (UnitaryTableau_n 0) (\<lambda>result.
      and_then (collect (map (compose_row get_xrow first second) qbs)) (\<lambda>xrows.
      let qm = foldl (\<lambda>m i. bimap_insert (qbs ! i, i) m) (qubits result) [0..<nqb] in
      and_then (collect (map (compose_row get_zrow first second) qbs)) (\<lambda>zrows.
      and_then (collect (map (to_stabiliser qm nqb) (xrows @ zrows))) (\<lambda>all_rows.
      and_then (SymplecticTableau_rows all_rows) (\<lambda>t.
        Inr \<lparr>tab = t, qubits = qm\<rparr>))))))"

section \<open>Symplectic tableaux\<close>

text \<open>
  The symplectic form of section 3, \<open>x \<cdot> z' + x' \<cdot> z\<close> modulo 2, between rows \<open>i\<close> and \<open>j\<close>,
  and the invariant: over \<open>n\<close> qubits, row \<open>i\<close> and row \<open>n + j\<close> pair to 1 exactly when
  \<open>i = j\<close>, and two rows of the same half pair to 0.
\<close>

definition dot2 :: "bool list \<Rightarrow> bool list \<Rightarrow> bool" where
  "dot2 a b = odd (length (filter (\<lambda>(x, y). x \<and> y) (zip a b)))"

definition symplectic_form :: "SymplecticTableau \<Rightarrow> nat \<Rightarrow> nat \<Rightarrow> bool" where
  "symplectic_form t i j =
     (dot2 (xmat t ! i) (zmat t ! j) \<noteq> dot2 (xmat t ! j) (zmat t ! i))"

definition is_symplectic :: "nat \<Rightarrow> SymplecticTableau \<Rightarrow> bool" where
  "is_symplectic n t =
     (\<forall>i \<in> set [0..<n]. \<forall>j \<in> set [0..<n].
        symplectic_form t i (n + j) = (i = j) \<and>
        \<not> symplectic_form t i j \<and>
        \<not> symplectic_form t (n + i) (n + j))"

text \<open>
  A tableau over the qubits \<^verbatim>\<open>Qubit(0)\<close> to \<^verbatim>\<open>Qubit(n-1)\<close> in the binding of
  \<^verbatim>\<open>UnitaryTableau(n)\<close>, with matrices of \<open>2 n\<close> rows and \<open>n\<close> columns.
\<close>

definition tableau_over :: "nat \<Rightarrow> UnitaryTableau \<Rightarrow> bool" where
  "tableau_over n u =
     (qubits u = default_qubits n \<and>
      length (xmat (tab u)) = 2 * n \<and> length (zmat (tab u)) = 2 * n \<and>
      length (phase (tab u)) = 2 * n \<and>
      list_all (\<lambda>r. length r = n) (xmat (tab u)) \<and>
      list_all (\<lambda>r. length r = n) (zmat (tab u)))"

section \<open>The tableaux of S, V and CX\<close>

text \<open>
  The rows of a tableau are the images of the Paulis under conjugation by the unitary
  (section 3): the first \<open>n\<close> rows are the images \<open>U X\<^sub>k U\<^sup>\<dagger>\<close>, the last \<open>n\<close> the images
  \<open>U Z\<^sub>k U\<^sup>\<dagger>\<close>, each a Pauli string with a sign. \<open>tableau_of_images n X Z\<close> is the tableau
  with these images over the qubits \<^verbatim>\<open>Qubit(0)\<close> to \<^verbatim>\<open>Qubit(n-1)\<close>, in the encoding of
  \<^verbatim>\<open>get_pauli\<close>. \<open>on_qubits n qs p\<close> is the string with \<open>p\<close> on the qubits \<open>qs\<close>.
\<close>

definition on_qubits :: "nat \<Rightarrow> nat list \<Rightarrow> Pauli \<Rightarrow> Pauli list" where
  "on_qubits n qs p = map (\<lambda>k. if k \<in> set qs then p else Pauli_I) [0..<n]"

definition tableau_of_images ::
    "nat \<Rightarrow> (nat \<Rightarrow> Pauli list \<times> complex) \<Rightarrow> (nat \<Rightarrow> Pauli list \<times> complex)
     \<Rightarrow> UnitaryTableau" where
  "tableau_of_images n X Z =
     (let images = map X [0..<n] @ map Z [0..<n] in
      \<lparr>tab = \<lparr>xmat = map (\<lambda>r. map (\<lambda>p. p = Pauli_X \<or> p = Pauli_Y) (fst r)) images,
              zmat = map (\<lambda>r. map (\<lambda>p. p = Pauli_Z \<or> p = Pauli_Y) (fst r)) images,
              phase = map (\<lambda>r. snd r = - 1) images\<rparr>,
       qubits = default_qubits n\<rparr>)"

text \<open>
  The gates themselves, by what they do to the Paulis. S is the phase gate: it sends X to
  Y and keeps Z. V is the square root of X (section 4.E): it keeps X and sends Z to \<open>-Y\<close>.
  CX with control \<open>c\<close> and target \<open>t\<close> sends \<open>X\<^sub>c\<close> to \<open>X\<^sub>c X\<^sub>t\<close> and \<open>Z\<^sub>t\<close> to \<open>Z\<^sub>c Z\<^sub>t\<close>, and keeps
  \<open>X\<^sub>t\<close> and \<open>Z\<^sub>c\<close>. A gate on the qubits named keeps the Paulis of every other qubit.
  The lemmas \<open>S_images\<close>, \<open>V_images\<close> and \<open>CX_images\<close> derive these images from the matrices
  of the gates.
\<close>

definition S_tableau :: "nat \<Rightarrow> nat \<Rightarrow> UnitaryTableau" where
  "S_tableau n q = tableau_of_images n
     (\<lambda>k. if k = q then (on_qubits n [q] Pauli_Y, 1) else (on_qubits n [k] Pauli_X, 1))
     (\<lambda>k. (on_qubits n [k] Pauli_Z, 1))"

definition V_tableau :: "nat \<Rightarrow> nat \<Rightarrow> UnitaryTableau" where
  "V_tableau n q = tableau_of_images n
     (\<lambda>k. (on_qubits n [k] Pauli_X, 1))
     (\<lambda>k. if k = q then (on_qubits n [q] Pauli_Y, - 1) else (on_qubits n [k] Pauli_Z, 1))"

definition CX_tableau :: "nat \<Rightarrow> nat \<Rightarrow> nat \<Rightarrow> UnitaryTableau" where
  "CX_tableau n c t = tableau_of_images n
     (\<lambda>k. if k = c then (on_qubits n [c, t] Pauli_X, 1) else (on_qubits n [k] Pauli_X, 1))
     (\<lambda>k. if k = t then (on_qubits n [c, t] Pauli_Z, 1) else (on_qubits n [k] Pauli_Z, 1))"

text \<open>The inverses of S and V: the first sends X to \<open>-Y\<close>, the second sends Z to Y.\<close>

definition Sdg_tableau :: "nat \<Rightarrow> nat \<Rightarrow> UnitaryTableau" where
  "Sdg_tableau n q = tableau_of_images n
     (\<lambda>k. if k = q then (on_qubits n [q] Pauli_Y, - 1) else (on_qubits n [k] Pauli_X, 1))
     (\<lambda>k. (on_qubits n [k] Pauli_Z, 1))"

definition Vdg_tableau :: "nat \<Rightarrow> nat \<Rightarrow> UnitaryTableau" where
  "Vdg_tableau n q = tableau_of_images n
     (\<lambda>k. (on_qubits n [k] Pauli_X, 1))
     (\<lambda>k. if k = q then (on_qubits n [q] Pauli_Y, 1) else (on_qubits n [k] Pauli_Z, 1))"

subsection \<open>The gates as matrices\<close>

text \<open>
  Square complex matrices as lists of rows, with the product, the adjoint, the
  conjugation \<open>U P U\<^sup>\<dagger>\<close> and the Kronecker product, first factor the control; the Pauli
  matrices and the matrices of S, V and CX.
\<close>

type_synonym cmat = "complex list list"

definition mat_mul :: "cmat \<Rightarrow> cmat \<Rightarrow> cmat" where
  "mat_mul A B =
     map (\<lambda>r. map (\<lambda>j. sum_list (map2 (*) r (map (\<lambda>b. b ! j) B))) [0..<length B]) A"

definition adjoint :: "cmat \<Rightarrow> cmat" where
  "adjoint A = map (\<lambda>j. map (\<lambda>r. cnj (r ! j)) A) [0..<length A]"

definition conjugate_by :: "cmat \<Rightarrow> cmat \<Rightarrow> cmat" where
  "conjugate_by U P = mat_mul (mat_mul U P) (adjoint U)"

definition scale :: "complex \<Rightarrow> cmat \<Rightarrow> cmat" where
  "scale c A = map (map ((*) c)) A"

definition kron :: "cmat \<Rightarrow> cmat \<Rightarrow> cmat" where
  "kron A B = concat (map (\<lambda>ra. map (\<lambda>rb. concat (map (\<lambda>a. map ((*) a) rb) ra)) B) A)"

fun pauli_mat :: "Pauli \<Rightarrow> cmat" where
  "pauli_mat Pauli_I = [[1, 0], [0, 1]]"
| "pauli_mat Pauli_X = [[0, 1], [1, 0]]"
| "pauli_mat Pauli_Y = [[0, - \<i>], [\<i>, 0]]"
| "pauli_mat Pauli_Z = [[1, 0], [0, - 1]]"

definition S_mat :: cmat where
  "S_mat = [[1, 0], [0, \<i>]]"

definition V_mat :: cmat where
  "V_mat = [[(1 + \<i>) / 2, (1 - \<i>) / 2], [(1 - \<i>) / 2, (1 + \<i>) / 2]]"

definition CX_mat :: cmat where
  "CX_mat = [[1, 0, 0, 0], [0, 1, 0, 0], [0, 0, 0, 1], [0, 0, 1, 0]]"

section \<open>Circuits and the CCX pass\<close>

text \<open>
  Modelled from the spec: the circuit and \<^verbatim>\<open>Transform::decomp_CCX\<close>. The files of
  \<^verbatim>\<open>Circuit\<close>, \<^verbatim>\<open>CircPool\<close> and of the pass are not among the sources; only the test
  \<^verbatim>\<open>test_ControlDecomp.cpp\<close> and the call \<^verbatim>\<open>CircPool::CCX_normal_decomp()\<close> in
  \<^verbatim>\<open>Replacement.cpp\<close> are. Section 3: a circuit has quantum and classical wires and
  operation vertices, each a gate type with its parameters and the wires it acts on;
  \<^verbatim>\<open>n_gates\<close> counts the operation vertices, and \<^verbatim>\<open>n_vertices\<close> adds an input and an
  output vertex for every wire. The operations are kept in the order of \<^verbatim>\<open>add_op\<close>.
\<close>

type_synonym Command = "OpType \<times> real list \<times> nat list"

record Circuit =
  n_qubits :: nat
  n_bits :: nat
  commands :: "Command list"

definition Circuit_n :: "nat \<Rightarrow> Circuit" where
  "Circuit_n n = \<lparr>n_qubits = n, n_bits = 0, commands = []\<rparr>"

definition add_op :: "OpType \<Rightarrow> real list \<Rightarrow> nat list \<Rightarrow> Circuit \<Rightarrow> Circuit" where
  "add_op type params args c = c\<lparr>commands := commands c @ [(type, params, args)]\<rparr>"

definition n_gates :: "Circuit \<Rightarrow> nat" where
  "n_gates c = length (commands c)"

definition n_vertices :: "Circuit \<Rightarrow> nat" where
  "n_vertices c = n_gates c + 2 * n_qubits c + 2 * n_bits c"

text \<open>
  Modelled from the spec: section 4.G, the CCX decomposition is a fixed expansion of 15
  gates over H, T, Tdg and CX, on the three wires of the gate. The specification does not
  spell the sequence out: the pass takes the template as a parameter, and
  \<open>CCX_normal_decomp\<close> is the sequence of the textbooks, for the examples.
\<close>

definition CCX_gate_set :: "OpType set" where
  "CCX_gate_set = {OpType_H, OpType_T, OpType_Tdg, OpType_CX}"

definition CCX_normal_decomp :: "Command list" where
  "CCX_normal_decomp =
     [(OpType_H, [], [2]), (OpType_CX, [], [1, 2]), (OpType_Tdg, [], [2]),
      (OpType_CX, [], [0, 2]), (OpType_T, [], [2]), (OpType_CX, [], [1, 2]),
      (OpType_Tdg, [], [2]), (OpType_CX, [], [0, 2]), (OpType_T, [], [1]),
      (OpType_T, [], [2]), (OpType_H, [], [2]), (OpType_CX, [], [0, 1]),
      (OpType_T, [], [0]), (OpType_Tdg, [], [1]), (OpType_CX, [], [0, 1])]"

text \<open>
  Modelled from the spec: section 4.D, \<^verbatim>\<open>substitute\<close> replaces a vertex by a circuit of
  matching arity: wire \<open>i\<close> of the template becomes the \<open>i\<close>-th wire of the vertex.
  Section 4.H: the pass rewrites every CCX vertex with the template and returns true
  exactly when a vertex was rewritten. Section 7: a target of the wrong arity is an
  \<open>InvalidVertex\<close> error.
\<close>

definition place :: "Command list \<Rightarrow> nat list \<Rightarrow> Command list" where
  "place template args =
     map (\<lambda>(type, params, wires). (type, params, map (\<lambda>i. args ! i) wires)) template"

fun decomp_CCX_commands :: "Command list \<Rightarrow> Command list \<Rightarrow> error + bool \<times> Command list" where
  "decomp_CCX_commands template [] = Inr (False, [])"
| "decomp_CCX_commands template ((type, params, args) # rest) =
     (if type = OpType_CCX then
        (if length args = 3 then
           and_then (decomp_CCX_commands template rest)
             (\<lambda>(b, cs). Inr (True, place template args @ cs))
         else Inl InvalidVertex)
      else
        and_then (decomp_CCX_commands template rest)
          (\<lambda>(b, cs). Inr (b, (type, params, args) # cs)))"

definition decomp_CCX :: "Command list \<Rightarrow> Circuit \<Rightarrow> error + bool \<times> Circuit" where
  "decomp_CCX template c =
     and_then (decomp_CCX_commands template (commands c))
       (\<lambda>(b, cs). Inr (b, c\<lparr>commands := cs\<rparr>))"

section \<open>Notions used in the proofs\<close>

text \<open>
  The rows of a tableau as Pauli strings with a sign, and the tensor of a row over the
  qubits \<^verbatim>\<open>Qubit(0)\<close> to \<^verbatim>\<open>Qubit(n-1)\<close>.
\<close>

definition full :: "nat \<Rightarrow> Pauli list \<Rightarrow> QubitPauliMap" where
  "full n ps = zip (map Qubit [0..<n]) ps"

definition paulis_of :: "SymplecticTableau \<Rightarrow> nat \<Rightarrow> Pauli list" where
  "paulis_of t r = map2 to_pauli (xmat t ! r) (zmat t ! r)"

definition sign_of :: "SymplecticTableau \<Rightarrow> nat \<Rightarrow> complex" where
  "sign_of t r = (if phase t ! r then - 1 else 1)"

text \<open>
  The view of a qubit-to-Pauli map as a Pauli string over \<open>n\<close> qubits: a qubit without an
  entry holds the identity. \<open>good\<close> says that the keys ascend strictly, \<open>keys_below n\<close>
  that they are moreover among the first \<open>n\<close> qubits.
\<close>

definition pauli_at :: "QubitPauliMap \<Rightarrow> qubit \<Rightarrow> Pauli" where
  "pauli_at m q = (case map_of m q of None \<Rightarrow> Pauli_I | Some p \<Rightarrow> p)"

definition good :: "QubitPauliMap \<Rightarrow> bool" where
  "good m = sorted_wrt (<) (map fst m)"

definition dense :: "nat \<Rightarrow> QubitPauliMap \<Rightarrow> Pauli list" where
  "dense n m = map (\<lambda>i. pauli_at m (Qubit i)) [0..<n]"

definition keys_below :: "nat \<Rightarrow> QubitPauliMap \<Rightarrow> bool" where
  "keys_below n m \<longleftrightarrow> good m \<and> fst ` set m \<subseteq> Qubit ` {..<n}"

text \<open>
  The product of two Pauli strings with coefficients, cell by cell, and the loop of
  \<^verbatim>\<open>get_row_product\<close> on such strings: \<open>dloop u n ps j res\<close> multiplies into \<open>res\<close>, for each
  Pauli of \<open>ps\<close> at the qubits \<open>j, j + 1, \<dots>\<close>, the rows of \<open>u\<close> that the Pauli selects.
  \<open>crow g u n r\<close> is row \<open>r\<close> of the composition of \<open>g\<close> and \<open>u\<close>.
\<close>

definition dmul_paulis :: "Pauli list \<Rightarrow> Pauli list \<Rightarrow> Pauli list" where
  "dmul_paulis ps qs = map2 (\<lambda>p q. snd (mult_matrix p q)) ps qs"

definition dmul_coeff :: "Pauli list \<Rightarrow> Pauli list \<Rightarrow> complex" where
  "dmul_coeff ps qs = prod_list (map2 (\<lambda>p q. fst (mult_matrix p q)) ps qs)"

type_synonym drow = "Pauli list \<times> complex"

definition dmul :: "drow \<Rightarrow> drow \<Rightarrow> drow" where
  "dmul a b = (dmul_paulis (fst a) (fst b), snd a * snd b * dmul_coeff (fst a) (fst b))"

definition drow_of :: "UnitaryTableau \<Rightarrow> nat \<Rightarrow> drow" where
  "drow_of u r = (paulis_of (tab u) r, sign_of (tab u) r)"

fun dloop :: "UnitaryTableau \<Rightarrow> nat \<Rightarrow> Pauli list \<Rightarrow> nat \<Rightarrow> drow \<Rightarrow> drow" where
  "dloop u n [] j res = res"
| "dloop u n (p # ps) j res =
     dloop u n ps (Suc j)
       (case p of
          Pauli_I \<Rightarrow> res
        | Pauli_X \<Rightarrow> dmul res (drow_of u j)
        | Pauli_Y \<Rightarrow>
            (fst (dmul (dmul res (drow_of u j)) (drow_of u (j + n))),
             snd (dmul (dmul res (drow_of u j)) (drow_of u (j + n))) * \<i>)
        | Pauli_Z \<Rightarrow> dmul res (drow_of u (j + n)))"

definition crow :: "UnitaryTableau \<Rightarrow> UnitaryTableau \<Rightarrow> nat \<Rightarrow> nat \<Rightarrow> drow" where
  "crow g u n r = dloop u n (paulis_of (tab g) r) 0 (replicate n Pauli_I, sign_of (tab g) r)"

text \<open>The identity tableau, and a Pauli string with a single non-identity cell.\<close>

definition id_tab :: "nat \<Rightarrow> UnitaryTableau" where
  "id_tab n = \<lparr>tab = \<lparr>xmat = MatrixXb_Identity n n @ MatrixXb_Zero n n,
                        zmat = MatrixXb_Zero n n @ MatrixXb_Identity n n,
                        phase = VectorXb_Zero (2 * n)\<rparr>,
               qubits = default_qubits n\<rparr>"

definition unit_row :: "nat \<Rightarrow> nat \<Rightarrow> Pauli \<Rightarrow> Pauli list" where
  "unit_row n k p = replicate k Pauli_I @ [p] @ replicate (n - Suc k) Pauli_I"

text \<open>
  Two Paulis anticommute when both differ from the identity and from each other;
  \<open>anti_count\<close> counts the cells in which two strings anticommute. \<open>signed c\<close> is the
  coefficient that the phase bit \<open>c = -1\<close> stands for.
\<close>

definition anti :: "Pauli \<Rightarrow> Pauli \<Rightarrow> bool" where
  "anti p q \<longleftrightarrow> p \<noteq> Pauli_I \<and> q \<noteq> Pauli_I \<and> p \<noteq> q"

definition anti_count :: "Pauli list \<Rightarrow> Pauli list \<Rightarrow> nat" where
  "anti_count ps qs = length (filter (\<lambda>(p, q). anti p q) (zip ps qs))"

definition signed :: "complex \<Rightarrow> complex" where
  "signed c = (if c = - 1 then - 1 else 1)"

section \<open>Auxiliary lemmas\<close>

lemma and_then_Inr [simp]: "and_then (Inr x) f = f x"
  by (simp add: and_then_def)

lemma and_then_Inl [simp]: "and_then (Inl e) f = Inl e"
  by (simp add: and_then_def)

lemma Qubit_inj [simp]: "Qubit i = Qubit j \<longleftrightarrow> i = j"
  by (simp add: Qubit_def)

lemma Qubit_less [simp]: "Qubit i < Qubit j \<longleftrightarrow> i < j"
  by (simp add: Qubit_def)

lemma Qubit_le [simp]: "Qubit i \<le> Qubit j \<longleftrightarrow> i \<le> j"
  by (auto simp: Qubit_def)

lemma Qubits_sorted:
  "sorted_wrt (<) (map Qubit [0..<n])" "sorted (map Qubit [0..<n])"
  "distinct (map Qubit [0..<n])"
proof -
  show a: "sorted_wrt (<) (map Qubit [0..<n])" by (simp add: sorted_wrt_map)
  then show "sorted (map Qubit [0..<n])" "distinct (map Qubit [0..<n])"
    by (simp_all add: strict_sorted_iff)
qed

lemma sorted_list_of_set_Qubits:
  "sorted_list_of_set (set (map Qubit [0..<n])) = map Qubit [0..<n]"
  using Qubits_sorted(2,3) by (rule sorted_list_of_set.idem_if_sorted_distinct)

lemma default_qubits_eq: "default_qubits n = map (\<lambda>i. (Qubit i, i)) [0..<n]"
proof (induction n)
  case 0
  then show ?case by (simp add: default_qubits_def)
next
  case (Suc n)
  have "default_qubits (Suc n) = bimap_insert (Qubit n, n) (default_qubits n)"
    by (simp add: default_qubits_def)
  also have "\<dots> = default_qubits n @ [(Qubit n, n)]"
    by (auto simp: bimap_insert_def Suc)
  finally show ?case by (simp add: Suc)
qed

lemma length_default_qubits [simp]: "length (default_qubits n) = n"
  by (simp add: default_qubits_eq)

lemma map_of_default_qubits:
  "map_of (default_qubits n) q = (if q \<in> Qubit ` {..<n} then Some (THE i. Qubit i = q) else None)"
proof (induction n)
  case 0
  then show ?case by (simp add: default_qubits_eq)
next
  case (Suc n)
  have "default_qubits (Suc n) = default_qubits n @ [(Qubit n, n)]"
    by (simp add: default_qubits_eq)
  then show ?case
    using Suc by (auto simp: map_add_def lessThan_Suc split: option.splits)
qed

lemma map_of_default_qubits_Qubit [simp]:
  "map_of (default_qubits n) (Qubit i) = (if i < n then Some i else None)"
  by (auto simp: map_of_default_qubits)

lemma left_at_default [simp]:
  "left_at (default_qubits n) (Qubit i) = (if i < n then Inr i else Inl out_of_range)"
  by (simp add: left_at_def)

lemma left_find_default [simp]:
  "left_find (default_qubits n) (Qubit i) = (if i < n then Some i else None)"
  by (simp add: left_find_def)

lemma right_at_default:
  "i < n \<Longrightarrow> right_at (default_qubits n) i = Inr (Qubit i)"
proof (induction n)
  case 0
  then show ?case by simp
next
  case (Suc n)
  have e: "default_qubits (Suc n) = default_qubits n @ [(Qubit n, n)]"
    by (simp add: default_qubits_eq)
  show ?case
  proof (cases "i < n")
    case True
    with Suc.IH have "right_at (default_qubits n) i = Inr (Qubit i)" by simp
    then show ?thesis
      by (auto simp: right_at_def e map_add_def split: option.splits)
  next
    case False
    with Suc.prems have "i = n" by simp
    moreover have "map_of (map (\<lambda>(q, j). (j, q)) (default_qubits n)) n = None"
      by (simp add: default_qubits_eq map_of_eq_None_iff image_iff comp_def)
    ultimately show ?thesis
      by (simp add: right_at_def e map_add_def)
  qed
qed

lemma collect_map_Inr:
  "(\<And>x. x \<in> set xs \<Longrightarrow> f x = Inr (g x)) \<Longrightarrow> collect (map f xs) = Inr (map g xs)"
  by (induction xs) simp_all

lemma collect_append:
  "collect (xs @ ys) = and_then (collect xs) (\<lambda>a. and_then (collect ys) (\<lambda>b. Inr (a @ b)))"
proof (induction xs)
  case Nil
  show ?case by (cases "collect ys") simp_all
next
  case (Cons x xs)
  show ?case
    by (cases x; cases "collect xs"; cases "collect ys") (simp_all add: Cons)
qed

lemma collect_right_at_default:
  "collect (map (right_at (default_qubits n)) [0..<n]) = Inr (map Qubit [0..<n])"
  by (rule collect_map_Inr) (simp add: right_at_default)

lemma insort_key_snoc:
  "\<forall>x \<in> set m. fst x < q \<Longrightarrow> insort_key fst (q, p) m = m @ [(q, p)]"
  by (induction m) auto

lemma QubitPauliString_list_upt:
  assumes "length ps = n - k" "k \<le> n" "fst ` set m \<subseteq> Qubit ` {..<k}"
  shows "QubitPauliString_list (map Qubit [k..<n]) ps m = Inr (m @ zip (map Qubit [k..<n]) ps)"
  using assms
proof (induction ps arbitrary: k m)
  case Nil
  then show ?case by simp
next
  case (Cons p ps)
  then have kn: "k < n" by simp
  then have u: "[k..<n] = k # [Suc k..<n]" by (simp add: upt_conv_Cons)
  have notin: "Qubit k \<notin> fst ` set m" using Cons.prems(3) by auto
  have lt: "\<forall>x \<in> set m. fst x < Qubit k" using Cons.prems(3) by fastforce
  have ins: "insort_key fst (Qubit k, p) m = m @ [(Qubit k, p)]"
    by (rule insort_key_snoc) (rule lt)
  have sub: "fst ` set (m @ [(Qubit k, p)]) \<subseteq> Qubit ` {..<Suc k}"
    using Cons.prems(3) by (auto simp: lessThan_Suc)
  have "QubitPauliString_list (map Qubit [Suc k..<n]) ps (m @ [(Qubit k, p)]) =
          Inr ((m @ [(Qubit k, p)]) @ zip (map Qubit [Suc k..<n]) ps)"
    using Cons.prems kn by (intro Cons.IH sub) auto
  then show ?case using notin by (simp add: u ins)
qed

lemma QubitPauliString_list_full:
  "length ps = n \<Longrightarrow> QubitPauliString_list (map Qubit [0..<n]) ps [] = Inr (full n ps)"
  using QubitPauliString_list_upt [of ps n 0 "[]"] by (simp add: full_def)

lemma tableau_over_rows:
  assumes "tableau_over n u" "r < 2 * n"
  shows "length (xmat (tab u) ! r) = n" "length (zmat (tab u) ! r) = n"
  using assms by (auto simp: tableau_over_def list_all_length)

lemma length_paulis_of:
  "tableau_over n u \<Longrightarrow> r < 2 * n \<Longrightarrow> length (paulis_of (tab u) r) = n"
  by (simp add: paulis_of_def tableau_over_rows)

lemma row_tensor_over:
  assumes "tableau_over n u" "r < 2 * n"
  shows "row_tensor u r = Inr (full n (paulis_of (tab u) r), sign_of (tab u) r)"
proof -
  have q: "qubits u = default_qubits n" using assms(1) by (simp add: tableau_over_def)
  have g: "get_pauli (tab u) r = Inr (paulis_of (tab u) r, \<not> phase (tab u) ! r)"
    using assms by (simp add: get_pauli_def tableau_over_def paulis_of_def)
  show ?thesis
    using length_paulis_of [OF assms]
    by (simp add: row_tensor_def g q collect_right_at_default QubitPauliString_list_full
          sign_of_def)
qed

lemma get_xrow_over:
  "tableau_over n u \<Longrightarrow> i < n \<Longrightarrow>
   get_xrow u (Qubit i) = Inr (full n (paulis_of (tab u) i), sign_of (tab u) i)"
proof -
  assume a: "tableau_over n u" "i < n"
  then have q: "qubits u = default_qubits n" by (simp add: tableau_over_def)
  from a have "row_tensor u i = Inr (full n (paulis_of (tab u) i), sign_of (tab u) i)"
    by (intro row_tensor_over) auto
  then show ?thesis using a by (simp add: get_xrow_def q)
qed

lemma get_zrow_over:
  "tableau_over n u \<Longrightarrow> i < n \<Longrightarrow>
   get_zrow u (Qubit i) = Inr (full n (paulis_of (tab u) (i + n)), sign_of (tab u) (i + n))"
proof -
  assume a: "tableau_over n u" "i < n"
  then have q: "qubits u = default_qubits n" by (simp add: tableau_over_def)
  from a have "row_tensor u (i + n) =
      Inr (full n (paulis_of (tab u) (i + n)), sign_of (tab u) (i + n))"
    by (intro row_tensor_over) auto
  then show ?thesis using a by (simp add: get_zrow_def q)
qed

lemma pauli_at_Nil [simp]: "pauli_at [] q = Pauli_I"
  by (simp add: pauli_at_def)

lemma pauli_at_Cons [simp]:
  "pauli_at ((k, p) # m) q = (if q = k then p else pauli_at m q)"
  by (simp add: pauli_at_def)

lemma good_Nil [simp]: "good []"
  by (simp add: good_def)

lemma good_Cons [simp]:
  "good ((k, p) # m) \<longleftrightarrow> (\<forall>x \<in> set m. k < fst x) \<and> good m"
  by (auto simp: good_def)

lemma pauli_at_notin: "q \<notin> fst ` set m \<Longrightarrow> pauli_at m q = Pauli_I"
  by (simp add: pauli_at_def map_of_eq_None_iff [THEN iffD2])

lemma pauli_at_below: "\<forall>x \<in> set m. q < fst x \<Longrightarrow> pauli_at m q = Pauli_I"
  by (rule pauli_at_notin) auto

lemma pauli_at_below': "\<forall>x \<in> set m. k < fst x \<Longrightarrow> q \<le> k \<Longrightarrow> pauli_at m q = Pauli_I"
  by (rule pauli_at_notin) auto

lemma mult_matrix_I_right [simp]: "mult_matrix p Pauli_I = (1, p)"
  by (cases p) simp_all

lemma fst_map_mult_Cons:
  "fst (map_mult ((q1, p1) # xs) ((q2, p2) # ys)) =
     (if q2 < q1 then (q2, p2) # fst (map_mult ((q1, p1) # xs) ys)
      else if q2 = q1 then
        (if snd (mult_matrix p1 p2) = Pauli_I then fst (map_mult xs ys)
         else (q1, snd (mult_matrix p1 p2)) # fst (map_mult xs ys))
      else (q1, p1) # fst (map_mult xs ((q2, p2) # ys)))"
  by (simp split: prod.splits)

lemma snd_map_mult_Cons:
  "snd (map_mult ((q1, p1) # xs) ((q2, p2) # ys)) =
     (if q2 < q1 then snd (map_mult ((q1, p1) # xs) ys)
      else if q2 = q1 then fst (mult_matrix p1 p2) * snd (map_mult xs ys)
      else snd (map_mult xs ((q2, p2) # ys)))"
  by (simp split: prod.splits)

lemma map_mult_keys:
  "fst ` set (fst (map_mult a b)) \<subseteq> fst ` set a \<union> fst ` set b"
proof (induction a b rule: map_mult.induct)
  case (1 ys)
  then show ?case by simp
next
  case (2 x xs)
  then show ?case by simp
next
  case (3 q1 p1 xs q2 p2 ys)
  show ?case
  proof (cases "q2 < q1")
    case True
    with 3(1) show ?thesis by (auto simp: fst_map_mult_Cons simp del: map_mult.simps)
  next
    case False
    show ?thesis
    proof (cases "q2 = q1")
      case True
      with 3(2) show ?thesis by (auto simp: fst_map_mult_Cons simp del: map_mult.simps)
    next
      case ne: False
      with False 3(3) show ?thesis
        by (auto simp: fst_map_mult_Cons simp del: map_mult.simps)
    qed
  qed
qed

lemma map_mult_good:
  "good a \<Longrightarrow> good b \<Longrightarrow> good (fst (map_mult a b))"
proof (induction a b rule: map_mult.induct)
  case (1 ys)
  then show ?case by simp
next
  case (2 x xs)
  then show ?case by simp
next
  case (3 q1 p1 xs q2 p2 ys)
  show ?case
  proof (cases "q2 < q1")
    case True
    have g: "good (fst (map_mult ((q1, p1) # xs) ys))"
      using 3 True by simp
    have "\<forall>x \<in> set (fst (map_mult ((q1, p1) # xs) ys)). q2 < fst x"
      using map_mult_keys [of "(q1, p1) # xs" ys] 3(4,5) True by fastforce
    with g True show ?thesis by (simp add: fst_map_mult_Cons del: map_mult.simps)
  next
    case False
    show ?thesis
    proof (cases "q2 = q1")
      case True
      have g: "good (fst (map_mult xs ys))" using 3 True by simp
      have "\<forall>x \<in> set (fst (map_mult xs ys)). q1 < fst x"
        using map_mult_keys [of xs ys] 3(4,5) True by fastforce
      with g True show ?thesis by (simp add: fst_map_mult_Cons del: map_mult.simps)
    next
      case ne: False
      with False have lt: "q1 < q2" by simp
      have g: "good (fst (map_mult xs ((q2, p2) # ys)))" using 3 False ne by simp
      have "\<forall>x \<in> set (fst (map_mult xs ((q2, p2) # ys))). q1 < fst x"
        using map_mult_keys [of xs "(q2, p2) # ys"] 3(4,5) lt by fastforce
      with g False ne show ?thesis by (simp add: fst_map_mult_Cons del: map_mult.simps)
    qed
  qed
qed

lemma map_mult_pauli_at:
  "good a \<Longrightarrow> good b \<Longrightarrow>
   pauli_at (fst (map_mult a b)) q = snd (mult_matrix (pauli_at a q) (pauli_at b q))"
proof (induction a b rule: map_mult.induct)
  case (1 ys)
  then show ?case by simp
next
  case (2 x xs)
  then show ?case by simp
next
  case (3 q1 p1 xs q2 p2 ys)
  show ?case
  proof (cases "q2 < q1")
    case True
    have ih: "pauli_at (fst (map_mult ((q1, p1) # xs) ys)) q =
              snd (mult_matrix (pauli_at ((q1, p1) # xs) q) (pauli_at ys q))"
      using 3 True by simp
    have "pauli_at xs q2 = Pauli_I"
      using 3(4) True by (intro pauli_at_below) fastforce
    with ih True show ?thesis by (auto simp: fst_map_mult_Cons simp del: map_mult.simps)
  next
    case False
    show ?thesis
    proof (cases "q2 = q1")
      case True
      have ih: "pauli_at (fst (map_mult xs ys)) q =
                snd (mult_matrix (pauli_at xs q) (pauli_at ys q))"
        using 3 True by simp
      have "pauli_at xs q1 = Pauli_I" "pauli_at ys q1 = Pauli_I"
        using 3(4,5) True by (auto intro!: pauli_at_below)
      with ih True show ?thesis by (auto simp: fst_map_mult_Cons simp del: map_mult.simps)
    next
      case ne: False
      with False have lt: "q1 < q2" by simp
      have ih: "pauli_at (fst (map_mult xs ((q2, p2) # ys))) q =
                snd (mult_matrix (pauli_at xs q) (pauli_at ((q2, p2) # ys) q))"
        using 3 False ne by simp
      have "pauli_at ys q1 = Pauli_I"
        using 3(5) lt by (intro pauli_at_below) fastforce
      with ih False ne lt show ?thesis
        by (auto simp: fst_map_mult_Cons simp del: map_mult.simps)
    qed
  qed
qed

lemma map_mult_coeff:
  "good a \<Longrightarrow> good b \<Longrightarrow> finite K \<Longrightarrow> fst ` set a \<union> fst ` set b \<subseteq> K \<Longrightarrow>
   snd (map_mult a b) = (\<Prod>q\<in>K. fst (mult_matrix (pauli_at a q) (pauli_at b q)))"
proof (induction a b rule: map_mult.induct)
  case (1 ys)
  then show ?case by simp
next
  case (2 x xs)
  then show ?case by simp
next
  case (3 q1 p1 xs q2 p2 ys)
  let ?g = "\<lambda>a b q. fst (mult_matrix (pauli_at a q) (pauli_at b q))"
  show ?case
  proof (cases "q2 < q1")
    case True
    have ih: "snd (map_mult ((q1, p1) # xs) ys) = (\<Prod>q\<in>K. ?g ((q1, p1) # xs) ys q)"
      using 3 True by simp
    have I: "pauli_at ((q1, p1) # xs) q2 = Pauli_I"
      using 3(4) True by (intro pauli_at_below) fastforce
    have "(\<Prod>q\<in>K. ?g ((q1, p1) # xs) ys q) = (\<Prod>q\<in>K. ?g ((q1, p1) # xs) ((q2, p2) # ys) q)"
    proof (rule prod.cong [OF refl])
      fix q assume "q \<in> K"
      show "?g ((q1, p1) # xs) ys q = ?g ((q1, p1) # xs) ((q2, p2) # ys) q"
      proof (cases "q = q2")
        case True
        with I show ?thesis by (simp del: pauli_at_Cons)
      next
        case False
        then show ?thesis by simp
      qed
    qed
    with ih True show ?thesis by (simp add: snd_map_mult_Cons del: map_mult.simps pauli_at_Cons)
  next
    case False
    show ?thesis
    proof (cases "q2 = q1")
      case True
      have ih: "snd (map_mult xs ys) = (\<Prod>q\<in>K. ?g xs ys q)"
        using 3 True by simp
      have I: "pauli_at xs q1 = Pauli_I" "pauli_at ys q1 = Pauli_I"
        using 3(4,5) True by (auto intro!: pauli_at_below)
      have inK: "q1 \<in> K" using 3(7) by simp
      have a: "(\<Prod>q\<in>K. ?g xs ys q) = (\<Prod>q\<in>K - {q1}. ?g xs ys q)"
        using prod.remove [OF 3(6) inK, of "?g xs ys"] I by simp
      have b: "(\<Prod>q\<in>K. ?g ((q1, p1) # xs) ((q1, p2) # ys) q) =
               fst (mult_matrix p1 p2) * (\<Prod>q\<in>K - {q1}. ?g ((q1, p1) # xs) ((q1, p2) # ys) q)"
        using prod.remove [OF 3(6) inK, of "?g ((q1, p1) # xs) ((q1, p2) # ys)"] by simp
      have c: "(\<Prod>q\<in>K - {q1}. ?g ((q1, p1) # xs) ((q1, p2) # ys) q) =
               (\<Prod>q\<in>K - {q1}. ?g xs ys q)"
        by (rule prod.cong) auto
      show ?thesis
        using True ih a b c by (simp add: snd_map_mult_Cons del: map_mult.simps pauli_at_Cons)
    next
      case ne: False
      with False have lt: "q1 < q2" by simp
      have ih: "snd (map_mult xs ((q2, p2) # ys)) = (\<Prod>q\<in>K. ?g xs ((q2, p2) # ys) q)"
        using 3 False ne by simp
      have I: "pauli_at ((q2, p2) # ys) q1 = Pauli_I"
        using 3(5) lt by (intro pauli_at_below) fastforce
      have "(\<Prod>q\<in>K. ?g xs ((q2, p2) # ys) q) = (\<Prod>q\<in>K. ?g ((q1, p1) # xs) ((q2, p2) # ys) q)"
      proof (rule prod.cong [OF refl])
        fix q assume "q \<in> K"
        show "?g xs ((q2, p2) # ys) q = ?g ((q1, p1) # xs) ((q2, p2) # ys) q"
        proof (cases "q = q1")
          case True
          have "pauli_at xs q1 = Pauli_I" using 3(4) by (auto intro!: pauli_at_below)
          with I True show ?thesis by (simp del: pauli_at_Cons)
        next
          case False
          then show ?thesis by simp
        qed
      qed
      with ih False ne show ?thesis
        by (simp add: snd_map_mult_Cons del: map_mult.simps pauli_at_Cons)
    qed
  qed
qed

lemma length_dense [simp]: "length (dense n m) = n"
  by (simp add: dense_def)

lemma keys_below_Nil [simp]: "keys_below n []"
  by (simp add: keys_below_def)

lemma dense_Nil: "dense n [] = replicate n Pauli_I"
  by (simp add: dense_def map_replicate_const)

lemma pauli_at_full:
  "length ps = n \<Longrightarrow> i < n \<Longrightarrow> pauli_at (full n ps) (Qubit i) = ps ! i"
  using map_of_zip_nth [of "map Qubit [0..<n]" ps i]
  by (simp add: pauli_at_def full_def distinct_map inj_on_def)

lemma dense_full: "length ps = n \<Longrightarrow> dense n (full n ps) = ps"
  by (simp add: dense_def pauli_at_full list_eq_iff_nth_eq)

lemma keys_below_full: "length ps = n \<Longrightarrow> keys_below n (full n ps)"
proof -
  assume l: "length ps = n"
  then have "map fst (full n ps) = map Qubit [0..<n]" by (simp add: full_def)
  moreover have "sorted_wrt (<) (map Qubit [0..<n])"
    by (simp add: sorted_wrt_map)
  ultimately have "good (full n ps)" by (simp add: good_def)
  moreover have "fst ` set (full n ps) \<subseteq> Qubit ` {..<n}"
    by (auto simp: full_def dest!: set_zip_leftD)
  ultimately show ?thesis by (simp add: keys_below_def)
qed

lemma map_mult_dense:
  assumes "keys_below n a" "keys_below n b"
  shows "keys_below n (fst (map_mult a b))"
    and "dense n (fst (map_mult a b)) = dmul_paulis (dense n a) (dense n b)"
    and "snd (map_mult a b) = dmul_coeff (dense n a) (dense n b)"
proof -
  have g: "good a" "good b" using assms by (simp_all add: keys_below_def)
  have k: "fst ` set a \<union> fst ` set b \<subseteq> Qubit ` {..<n}"
    using assms by (simp add: keys_below_def)
  have "fst ` set (fst (map_mult a b)) \<subseteq> Qubit ` {..<n}"
    using map_mult_keys [of a b] k by (rule subset_trans)
  then show "keys_below n (fst (map_mult a b))"
    using map_mult_good [OF g] by (simp add: keys_below_def)
  show "dense n (fst (map_mult a b)) = dmul_paulis (dense n a) (dense n b)"
    by (simp add: dense_def dmul_paulis_def map2_map_map map_mult_pauli_at [OF g])
  let ?f = "\<lambda>q. fst (mult_matrix (pauli_at a q) (pauli_at b q))"
  have "snd (map_mult a b) = (\<Prod>q\<in>Qubit ` {..<n}. ?f q)"
    by (rule map_mult_coeff [OF g _ k]) simp
  also have "\<dots> = (\<Prod>i\<in>{..<n}. ?f (Qubit i))"
    by (subst prod.reindex) (auto simp: inj_on_def)
  also have "\<dots> = prod_list (map (\<lambda>i. ?f (Qubit i)) [0..<n])"
    using prod.distinct_set_conv_list [of "[0..<n]" "\<lambda>i. ?f (Qubit i)"]
    by (simp add: atLeast0LessThan)
  finally show "snd (map_mult a b) = dmul_coeff (dense n a) (dense n b)"
    by (simp add: dense_def dmul_coeff_def map2_map_map)
qed

lemma fst_tensor_mult: "fst (tensor_mult a b) = fst (map_mult (fst a) (fst b))"
  by (simp add: tensor_mult_def split: prod.splits)

lemma snd_tensor_mult:
  "snd (tensor_mult a b) = snd a * snd b * snd (map_mult (fst a) (fst b))"
  by (simp add: tensor_mult_def split: prod.splits)

lemma tensor_mult_dense:
  assumes "keys_below n a" "keys_below n b"
  shows "keys_below n (fst (tensor_mult (a, c) (b, d)))"
    and "(dense n (fst (tensor_mult (a, c) (b, d))), snd (tensor_mult (a, c) (b, d))) =
           dmul (dense n a, c) (dense n b, d)"
  using map_mult_dense [OF assms]
  by (simp_all add: fst_tensor_mult snd_tensor_mult dmul_def)

lemma tensor_mult_row:
  assumes "keys_below n a" "tableau_over n u" "r < 2 * n"
  shows "keys_below n (fst (tensor_mult (a, c) (full n (paulis_of (tab u) r), sign_of (tab u) r)))"
    and "(dense n (fst (tensor_mult (a, c) (full n (paulis_of (tab u) r), sign_of (tab u) r))),
          snd (tensor_mult (a, c) (full n (paulis_of (tab u) r), sign_of (tab u) r))) =
           dmul (dense n a, c) (drow_of u r)"
proof -
  have l: "length (paulis_of (tab u) r) = n" using assms(2,3) by (rule length_paulis_of)
  have k: "keys_below n (full n (paulis_of (tab u) r))" using l by (rule keys_below_full)
  show "keys_below n (fst (tensor_mult (a, c) (full n (paulis_of (tab u) r), sign_of (tab u) r)))"
    using assms(1) k by (rule tensor_mult_dense)
  show "(dense n (fst (tensor_mult (a, c) (full n (paulis_of (tab u) r), sign_of (tab u) r))),
          snd (tensor_mult (a, c) (full n (paulis_of (tab u) r), sign_of (tab u) r))) =
           dmul (dense n a, c) (drow_of u r)"
    using tensor_mult_dense(2) [OF assms(1) k] by (simp add: dense_full [OF l] drow_of_def)
qed

lemma row_product_loop_dense:
  assumes "tableau_over n u"
  shows "keys_below n m \<Longrightarrow> k + length ps = n \<Longrightarrow>
         \<exists>m'. row_product_loop u (zip (map Qubit [k..<n]) ps) (m, c) =
                 Inr (m', snd (dloop u n ps k (dense n m, c))) \<and>
              keys_below n m' \<and> dense n m' = fst (dloop u n ps k (dense n m, c))"
proof (induction ps arbitrary: k m c)
  case Nil
  then show ?case by simp
next
  case (Cons p ps)
  then have kn: "k < n" by simp
  then have u: "[k..<n] = k # [Suc k..<n]" by (simp add: upt_conv_Cons)
  have q: "qubits u = default_qubits n" using assms by (simp add: tableau_over_def)
  have lf: "left_find (qubits u) (Qubit k) = Some k" using kn by (simp add: q)
  have gx: "get_xrow u (Qubit k) = Inr (full n (paulis_of (tab u) k), sign_of (tab u) k)"
    using assms kn by (rule get_xrow_over)
  have gz: "get_zrow u (Qubit k) =
              Inr (full n (paulis_of (tab u) (k + n)), sign_of (tab u) (k + n))"
    using assms kn by (rule get_zrow_over)
  have len: "Suc k + length ps = n" using Cons.prems by simp
  have r1: "k < 2 * n" "k + n < 2 * n" using kn by simp_all
  show ?case
  proof (cases p)
    case Pauli_I
    with Cons.IH [OF Cons.prems(1) len, of c] show ?thesis by (simp add: u lf)
  next
    case Pauli_X
    let ?t = "tensor_mult (m, c) (full n (paulis_of (tab u) k), sign_of (tab u) k)"
    have a: "keys_below n (fst ?t)" "(dense n (fst ?t), snd ?t) = dmul (dense n m, c) (drow_of u k)"
      using tensor_mult_row [OF Cons.prems(1) assms r1(1)] by simp_all
    from Cons.IH [OF a(1) len, of "snd ?t"] a(2) Pauli_X show ?thesis
      by (simp add: u lf gx)
  next
    case Pauli_Z
    let ?t = "tensor_mult (m, c) (full n (paulis_of (tab u) (k + n)), sign_of (tab u) (k + n))"
    have a: "keys_below n (fst ?t)"
      "(dense n (fst ?t), snd ?t) = dmul (dense n m, c) (drow_of u (k + n))"
      using tensor_mult_row [OF Cons.prems(1) assms r1(2)] by simp_all
    from Cons.IH [OF a(1) len, of "snd ?t"] a(2) Pauli_Z show ?thesis
      by (simp add: u lf gz)
  next
    case Pauli_Y
    let ?t = "tensor_mult (m, c) (full n (paulis_of (tab u) k), sign_of (tab u) k)"
    have a: "keys_below n (fst ?t)" "(dense n (fst ?t), snd ?t) = dmul (dense n m, c) (drow_of u k)"
      using tensor_mult_row [OF Cons.prems(1) assms r1(1)] by simp_all
    let ?t2 = "tensor_mult (fst ?t, snd ?t)
                 (full n (paulis_of (tab u) (k + n)), sign_of (tab u) (k + n))"
    have b: "keys_below n (fst ?t2)"
      "(dense n (fst ?t2), snd ?t2) = dmul (dense n (fst ?t), snd ?t) (drow_of u (k + n))"
      using tensor_mult_row [OF a(1) assms r1(2), of "snd ?t"] by simp_all
    have d: "dense n (fst ?t) = fst (dmul (dense n m, c) (drow_of u k))"
      "snd ?t = snd (dmul (dense n m, c) (drow_of u k))"
      using a(2) by (metis fst_conv, metis snd_conv)
    have e: "dense n (fst ?t2) =
               fst (dmul (dmul (dense n m, c) (drow_of u k)) (drow_of u (k + n)))"
      "snd ?t2 = snd (dmul (dmul (dense n m, c) (drow_of u k)) (drow_of u (k + n)))"
      using b(2) d by (metis fst_conv prod.collapse, metis snd_conv prod.collapse)
    obtain m2 c2 where t2: "?t2 = (m2, c2)" by (cases ?t2)
    from Cons.IH [OF b(1) len, of "snd ?t2 * \<i>"] e Pauli_Y t2 show ?thesis
      by (simp add: u lf gx gz)
  qed
qed

lemma get_row_product_dense:
  assumes "tableau_over n u" "length ps = n"
  shows "\<exists>m'. get_row_product u (full n ps, c) =
                 Inr (m', snd (dloop u n ps 0 (replicate n Pauli_I, c))) \<and>
              keys_below n m' \<and> dense n m' = fst (dloop u n ps 0 (replicate n Pauli_I, c))"
  using row_product_loop_dense [OF assms(1), of "[]" 0 ps c] assms(2)
  by (simp add: get_row_product_def full_def dense_Nil)

lemma fill_paulis_default:
  "keys_below n m \<Longrightarrow> length ps = n \<Longrightarrow>
   fill_paulis (default_qubits n) m ps =
     Inr (map (\<lambda>j. case map_of m (Qubit j) of None \<Rightarrow> ps ! j | Some p \<Rightarrow> p) [0..<n])"
proof (induction m arbitrary: ps)
  case Nil
  then show ?case by (simp add: list_eq_iff_nth_eq)
next
  case (Cons x m)
  obtain q p where x: "x = (q, p)" by (cases x)
  from Cons.prems(1) obtain i where i: "q = Qubit i" "i < n"
    by (auto simp: keys_below_def x)
  have km: "keys_below n m" using Cons.prems(1) by (auto simp: keys_below_def x)
  have none: "map_of m (Qubit i) = None"
    using Cons.prems(1) by (force simp: keys_below_def x i map_of_eq_None_iff)
  have "fill_paulis (default_qubits n) m (ps[i := p]) =
          Inr (map (\<lambda>j. case map_of m (Qubit j) of None \<Rightarrow> ps[i := p] ! j | Some p \<Rightarrow> p) [0..<n])"
    using km Cons.prems(2) by (intro Cons.IH) simp_all
  then show ?case
    using i none Cons.prems(2) by (auto simp: x nth_list_update split: option.splits)
qed

lemma fill_paulis_dense:
  "keys_below n m \<Longrightarrow> fill_paulis (default_qubits n) m (replicate n Pauli_I) = Inr (dense n m)"
  by (simp add: fill_paulis_default dense_def pauli_at_def cong: option.case_cong)

lemma to_stabiliser_dense:
  "keys_below n m \<Longrightarrow> c = 1 \<or> c = - 1 \<Longrightarrow>
   to_stabiliser (default_qubits n) n (m, c) = Inr (dense n m, c = 1)"
  by (auto simp: to_stabiliser_def fill_paulis_dense)

lemma compose_row_x_dense:
  assumes "tableau_over n g" "tableau_over n u" "i < n"
  shows "\<exists>m'. compose_row get_xrow g u (Qubit i) = Inr (m', snd (crow g u n i)) \<and>
              keys_below n m' \<and> dense n m' = fst (crow g u n i)"
proof -
  have q: "qubits g = default_qubits n" using assms(1) by (simp add: tableau_over_def)
  have l: "length (paulis_of (tab g) i) = n"
    using assms(1,3) by (intro length_paulis_of) auto
  show ?thesis
    using get_row_product_dense [OF assms(2) l, of "sign_of (tab g) i"] assms(3)
    by (simp add: compose_row_def q get_xrow_over [OF assms(1,3)] crow_def)
qed

lemma compose_row_z_dense:
  assumes "tableau_over n g" "tableau_over n u" "i < n"
  shows "\<exists>m'. compose_row get_zrow g u (Qubit i) = Inr (m', snd (crow g u n (i + n))) \<and>
              keys_below n m' \<and> dense n m' = fst (crow g u n (i + n))"
proof -
  have q: "qubits g = default_qubits n" using assms(1) by (simp add: tableau_over_def)
  have l: "length (paulis_of (tab g) (i + n)) = n"
    using assms(1,3) by (intro length_paulis_of) auto
  show ?thesis
    using get_row_product_dense [OF assms(2) l, of "sign_of (tab g) (i + n)"] assms(3)
    by (simp add: compose_row_def q get_zrow_over [OF assms(1,3)] crow_def)
qed

lemma get_qubits_over:
  "tableau_over n u \<Longrightarrow> get_qubits u = map Qubit [0..<n]"
proof -
  assume "tableau_over n u"
  then have "fst ` set (qubits u) = set (map Qubit [0..<n])"
    by (auto simp: tableau_over_def default_qubits_eq image_iff)
  then show ?thesis
    by (simp only: get_qubits_def sorted_list_of_set_Qubits)
qed

lemma default_qubits_foldl:
  "foldl (\<lambda>m i. bimap_insert (map Qubit [0..<n] ! i, i) m) [] [0..<n] = default_qubits n"
proof -
  have "\<And>m k. k \<le> n \<Longrightarrow>
      foldl (\<lambda>m i. bimap_insert (map Qubit [0..<n] ! i, i) m) m [0..<k] =
      foldl (\<lambda>m i. bimap_insert (Qubit i, i) m) m [0..<k]"
  proof -
    fix m k show "k \<le> n \<Longrightarrow>
      foldl (\<lambda>m i. bimap_insert (map Qubit [0..<n] ! i, i) m) m [0..<k] =
      foldl (\<lambda>m i. bimap_insert (Qubit i, i) m) m [0..<k]"
      by (induction k) simp_all
  qed
  then show ?thesis by (simp add: default_qubits_def)
qed

lemma UnitaryTableau_n_0:
  "UnitaryTableau_n 0 =
     Inr \<lparr>tab = \<lparr>xmat = [], zmat = [], phase = []\<rparr>, qubits = []\<rparr>"
  by (simp add: UnitaryTableau_n_def SymplecticTableau_mats_def
        MatrixXb_Identity_def MatrixXb_Zero_def VectorXb_Zero_def rows_def cols_def
        default_qubits_def)

lemma SymplecticTableau_rows_same_length:
  "\<forall>r \<in> set rs. length (fst r) = n \<Longrightarrow>
   SymplecticTableau_rows rs =
     Inr \<lparr>xmat = map (\<lambda>r. map (\<lambda>p. p = Pauli_X \<or> p = Pauli_Y) (fst r)) rs,
          zmat = map (\<lambda>r. map (\<lambda>p. p = Pauli_Z \<or> p = Pauli_Y) (fst r)) rs,
          phase = map (\<lambda>r. \<not> snd r) rs\<rparr>"
  by (cases rs) (auto simp: SymplecticTableau_rows_def list_ex_iff)

lemma upt_double: "map f [0..<n] @ map (\<lambda>i. f (i + n)) [0..<n] = map f [0..<2 * n]"
proof -
  have "[0..<2 * n] = [0..<n] @ [n..<n + n]"
    using upt_add_eq_append [of 0 n n] by (simp add: mult_2)
  moreover have "map (\<lambda>i. f (i + n)) [0..<n] = map f (map (\<lambda>i. i + n) [0..<n])"
    by simp
  moreover have "map (\<lambda>i. i + n) [0..<n] = [n..<n + n]"
    by (simp only: map_add_upt)
  ultimately show ?thesis by simp
qed

lemma compose_dense:
  assumes g: "tableau_over n g" and u: "tableau_over n u"
    and real: "\<And>r. r < 2 * n \<Longrightarrow> snd (crow g u n r) = 1 \<or> snd (crow g u n r) = - 1"
  shows "compose g u =
     Inr \<lparr>tab = \<lparr>xmat = map (\<lambda>r. map (\<lambda>p. p = Pauli_X \<or> p = Pauli_Y) (fst (crow g u n r)))
                          [0..<2 * n],
                 zmat = map (\<lambda>r. map (\<lambda>p. p = Pauli_Z \<or> p = Pauli_Y) (fst (crow g u n r)))
                          [0..<2 * n],
                 phase = map (\<lambda>r. snd (crow g u n r) \<noteq> 1) [0..<2 * n]\<rparr>,
          qubits = default_qubits n\<rparr>"
proof -
  define X where "X = (\<lambda>i. projr (compose_row get_xrow g u (Qubit i)))"
  define Z where "Z = (\<lambda>i. projr (compose_row get_zrow g u (Qubit i)))"
  have X: "compose_row get_xrow g u (Qubit i) = Inr (X i)" "keys_below n (fst (X i))"
      "dense n (fst (X i)) = fst (crow g u n i)" "snd (X i) = snd (crow g u n i)"
    if "i < n" for i
  proof -
    from compose_row_x_dense [OF g u that] obtain m' where
      "compose_row get_xrow g u (Qubit i) = Inr (m', snd (crow g u n i))"
      "keys_below n m'" "dense n m' = fst (crow g u n i)" by blast
    then show "compose_row get_xrow g u (Qubit i) = Inr (X i)" "keys_below n (fst (X i))"
      "dense n (fst (X i)) = fst (crow g u n i)" "snd (X i) = snd (crow g u n i)"
      by (simp_all add: X_def)
  qed
  have Z: "compose_row get_zrow g u (Qubit i) = Inr (Z i)" "keys_below n (fst (Z i))"
      "dense n (fst (Z i)) = fst (crow g u n (i + n))" "snd (Z i) = snd (crow g u n (i + n))"
    if "i < n" for i
  proof -
    from compose_row_z_dense [OF g u that] obtain m' where
      "compose_row get_zrow g u (Qubit i) = Inr (m', snd (crow g u n (i + n)))"
      "keys_below n m'" "dense n m' = fst (crow g u n (i + n))" by blast
    then show "compose_row get_zrow g u (Qubit i) = Inr (Z i)" "keys_below n (fst (Z i))"
      "dense n (fst (Z i)) = fst (crow g u n (i + n))" "snd (Z i) = snd (crow g u n (i + n))"
      by (simp_all add: Z_def)
  qed
  have qbs: "sorted_list_of_set (set (get_qubits g) \<union> set (get_qubits u)) = map Qubit [0..<n]"
    by (simp only: get_qubits_over [OF g] get_qubits_over [OF u] Un_absorb
          sorted_list_of_set_Qubits)
  have cx: "collect (map (\<lambda>x. compose_row get_xrow g u (Qubit x)) [0..<n]) =
              Inr (map X [0..<n])"
    by (rule collect_map_Inr) (simp add: X(1))
  have cz: "collect (map (\<lambda>x. compose_row get_zrow g u (Qubit x)) [0..<n]) =
              Inr (map Z [0..<n])"
    by (rule collect_map_Inr) (simp add: Z(1))
  define S where "S = (\<lambda>r. (fst (crow g u n r), snd (crow g u n r) = 1))"
  have sx: "to_stabiliser (default_qubits n) n (X i) = Inr (S i)" if "i < n" for i
  proof -
    have "X i = (fst (X i), snd (crow g u n i))" using X(4) [OF that] by (cases "X i") simp
    then show ?thesis
      using to_stabiliser_dense [OF X(2) [OF that], of "snd (crow g u n i)"] real [of i] that
      by (simp add: X(3) S_def)
  qed
  have sz: "to_stabiliser (default_qubits n) n (Z i) = Inr (S (i + n))" if "i < n" for i
  proof -
    have "Z i = (fst (Z i), snd (crow g u n (i + n)))"
      using Z(4) [OF that] by (cases "Z i") simp
    then show ?thesis
      using to_stabiliser_dense [OF Z(2) [OF that], of "snd (crow g u n (i + n))"]
        real [of "i + n"] that
      by (simp add: Z(3) S_def)
  qed
  have c1: "collect (map (\<lambda>x. to_stabiliser (default_qubits n) n (X x)) [0..<n]) =
          Inr (map S [0..<n])"
    by (rule collect_map_Inr) (simp add: sx)
  have c2: "collect (map (\<lambda>x. to_stabiliser (default_qubits n) n (Z x)) [0..<n]) =
          Inr (map (\<lambda>i. S (i + n)) [0..<n])"
    by (rule collect_map_Inr) (simp add: sz)
  have call: "collect (map (\<lambda>x. to_stabiliser (default_qubits n) n (X x)) [0..<n] @
                       map (\<lambda>x. to_stabiliser (default_qubits n) n (Z x)) [0..<n]) =
          Inr (map S [0..<2 * n])"
    using c1 c2 by (simp add: collect_append upt_double)
  have len: "\<forall>r \<in> set (map S [0..<2 * n]). length (fst r) = n"
  proof
    fix r assume "r \<in> set (map S [0..<2 * n])"
    then obtain k where k: "k < 2 * n" "r = S k" by auto
    show "length (fst r) = n"
    proof (cases "k < n")
      case True
      from X(3) [OF True] have "length (fst (crow g u n k)) = length (dense n (fst (X k)))"
        by simp
      then show ?thesis by (simp add: k S_def)
    next
      case False
      with k have "k - n < n" "k = (k - n) + n" by simp_all
      with Z(3) [of "k - n"] have "length (fst (crow g u n k)) = length (dense n (fst (Z (k - n))))"
        by simp
      then show ?thesis by (simp add: k S_def)
    qed
  qed
  show ?thesis
    by (simp add: compose_def Let_def qbs UnitaryTableau_n_0 default_qubits_foldl cx cz
          comp_def call SymplecticTableau_rows_same_length [OF len])
      (simp add: S_def comp_def)
qed

lemma UnitaryTableau_n_eq: "UnitaryTableau_n n = Inr (id_tab n)"
proof (cases n)
  case 0
  then show ?thesis
    by (simp add: UnitaryTableau_n_def SymplecticTableau_mats_def id_tab_def rows_def cols_def
          MatrixXb_Identity_def MatrixXb_Zero_def VectorXb_Zero_def)
next
  case (Suc m)
  have "[0..<Suc m] = 0 # [1..<Suc m]" by (simp add: upt_conv_Cons)
  then have "cols (MatrixXb_Identity (Suc m) (Suc m) @ MatrixXb_Zero (Suc m) (Suc m)) = Suc m"
    by (simp add: cols_def MatrixXb_Identity_def)
  moreover have "cols (MatrixXb_Zero (Suc m) (Suc m) @ MatrixXb_Identity (Suc m) (Suc m)) = Suc m"
    by (simp add: cols_def MatrixXb_Zero_def)
  ultimately show ?thesis
    by (simp add: UnitaryTableau_n_def SymplecticTableau_mats_def id_tab_def rows_def Suc
          MatrixXb_Identity_def MatrixXb_Zero_def VectorXb_Zero_def)
qed

lemma id_tab_over: "tableau_over n (id_tab n)"
  by (auto simp: tableau_over_def id_tab_def MatrixXb_Identity_def MatrixXb_Zero_def
        VectorXb_Zero_def list_all_iff)

lemma unit_row_nth:
  "k < n \<Longrightarrow> j < n \<Longrightarrow> unit_row n k p ! j = (if j = k then p else Pauli_I)"
  by (auto simp: unit_row_def nth_append nth_Cons split: nat.splits)

lemma length_unit_row [simp]: "k < n \<Longrightarrow> length (unit_row n k p) = n"
  by (simp add: unit_row_def)

lemma id_tab_rows:
  assumes "i < n"
  shows "xmat (tab (id_tab n)) ! i = map (\<lambda>j. i = j) [0..<n]"
    and "zmat (tab (id_tab n)) ! i = replicate n False"
    and "xmat (tab (id_tab n)) ! (i + n) = replicate n False"
    and "zmat (tab (id_tab n)) ! (i + n) = map (\<lambda>j. i = j) [0..<n]"
    and "phase (tab (id_tab n)) ! i = False"
    and "phase (tab (id_tab n)) ! (i + n) = False"
  using assms
  by (simp_all add: id_tab_def MatrixXb_Identity_def MatrixXb_Zero_def VectorXb_Zero_def
        nth_append)

lemma id_tab_paulis:
  assumes "i < n"
  shows "paulis_of (tab (id_tab n)) i = unit_row n i Pauli_X"
    and "paulis_of (tab (id_tab n)) (i + n) = unit_row n i Pauli_Z"
  using assms
  by (auto simp: paulis_of_def id_tab_rows list_eq_iff_nth_eq unit_row_nth to_pauli_def)

lemma id_tab_sign:
  assumes "i < n"
  shows "sign_of (tab (id_tab n)) i = 1" "sign_of (tab (id_tab n)) (i + n) = 1"
  using assms by (simp_all add: sign_of_def id_tab_rows)

lemma dloop_append:
  "dloop u n (ps @ qs) j res = dloop u n qs (j + length ps) (dloop u n ps j res)"
  by (induction ps arbitrary: j res) simp_all

lemma dloop_replicate_I [simp]: "dloop u n (replicate k Pauli_I) j res = res"
  by (induction k arbitrary: j) simp_all

lemma dloop_unit_row:
  "dloop u n (unit_row n k p) 0 res = dloop u n [p] k res"
  by (simp add: unit_row_def dloop_append)

lemma dmul_paulis_I_left:
  "length ps = n \<Longrightarrow> dmul_paulis (replicate n Pauli_I) ps = ps"
  by (simp add: dmul_paulis_def list_eq_iff_nth_eq)

lemma prod_list_all_one:
  "\<forall>x \<in> set xs. x = (1::complex) \<Longrightarrow> prod_list xs = 1"
  by (induction xs) simp_all

lemma dmul_coeff_I_left:
  "dmul_coeff (replicate n Pauli_I) ps = 1"
  unfolding dmul_coeff_def by (rule prod_list_all_one) (auto simp: set_zip)

lemma map2_paulis_I_right:
  "map2 (\<lambda>p q. snd (mult_matrix p q)) ps (replicate (length ps) Pauli_I) = ps"
  by (simp add: list_eq_iff_nth_eq)

lemma map2_coeff_I_right:
  "prod_list (map2 (\<lambda>p q. fst (mult_matrix p q)) ps (replicate k Pauli_I)) = 1"
  by (rule prod_list_all_one) (auto simp: set_zip)

lemma map2_coeff_I_left:
  "prod_list (map2 (\<lambda>p q. fst (mult_matrix p q)) (replicate k Pauli_I) ps) = 1"
  by (rule prod_list_all_one) (auto simp: set_zip)

lemma dmul_unit:
  assumes "length pre = k"
  shows "dmul (pre @ a # replicate m Pauli_I, c) (replicate k Pauli_I @ b # replicate m Pauli_I, d) =
           (pre @ snd (mult_matrix a b) # replicate m Pauli_I, c * d * fst (mult_matrix a b))"
proof -
  have z: "zip (pre @ a # replicate m Pauli_I) (replicate k Pauli_I @ b # replicate m Pauli_I) =
           zip pre (replicate k Pauli_I) @ (a, b) # zip (replicate m Pauli_I) (replicate m Pauli_I)"
    using assms by (simp add: zip_append)
  have p: "map2 (\<lambda>p q. snd (mult_matrix p q)) pre (replicate k Pauli_I) = pre"
    using map2_paulis_I_right [of pre] assms by simp
  have r: "map2 (\<lambda>p q. snd (mult_matrix p q)) (replicate m Pauli_I) (replicate m Pauli_I) =
           replicate m Pauli_I"
    using map2_paulis_I_right [of "replicate m Pauli_I"] by simp
  show ?thesis
    by (simp add: dmul_def dmul_paulis_def dmul_coeff_def z p r map2_coeff_I_right
          del: zip_replicate)
qed

lemma drow_of_id_tab:
  assumes "k < n"
  shows "drow_of (id_tab n) k = (replicate k Pauli_I @ Pauli_X # replicate (n - Suc k) Pauli_I, 1)"
    and "drow_of (id_tab n) (k + n) =
           (replicate k Pauli_I @ Pauli_Z # replicate (n - Suc k) Pauli_I, 1)"
  using assms by (simp_all add: drow_of_def id_tab_paulis id_tab_sign unit_row_def)

lemma dloop_id_tab:
  "length pre = k \<Longrightarrow> k + length ps = n \<Longrightarrow>
   dloop (id_tab n) n ps k (pre @ replicate (n - k) Pauli_I, c) = (pre @ ps, c)"
proof (induction ps arbitrary: k pre c)
  case Nil
  then show ?case by simp
next
  case (Cons p ps)
  then have kn: "k < n" by simp
  then have rep: "replicate (n - k) Pauli_I = Pauli_I # replicate (n - Suc k) Pauli_I"
    by (simp add: Suc_diff_Suc replicate_Suc [symmetric] del: replicate_Suc)
  have len: "length (pre @ [p]) = Suc k" "Suc k + length ps = n"
    using Cons.prems by simp_all
  have ih: "dloop (id_tab n) n ps (Suc k) ((pre @ [p]) @ replicate (n - Suc k) Pauli_I, c') =
              ((pre @ [p]) @ ps, c')" for c'
    using len by (rule Cons.IH)
  have X: "dmul (pre @ Pauli_I # replicate (n - Suc k) Pauli_I, c) (drow_of (id_tab n) k) =
             (pre @ Pauli_X # replicate (n - Suc k) Pauli_I, c)"
    using dmul_unit [OF Cons.prems(1), of Pauli_I "n - Suc k" c Pauli_X 1]
    by (simp add: drow_of_id_tab [OF kn])
  have Z: "dmul (pre @ Pauli_I # replicate (n - Suc k) Pauli_I, c) (drow_of (id_tab n) (k + n)) =
             (pre @ Pauli_Z # replicate (n - Suc k) Pauli_I, c)"
    using dmul_unit [OF Cons.prems(1), of Pauli_I "n - Suc k" c Pauli_Z 1]
    by (simp add: drow_of_id_tab [OF kn])
  have Y: "dmul (pre @ Pauli_X # replicate (n - Suc k) Pauli_I, c) (drow_of (id_tab n) (k + n)) =
             (pre @ Pauli_Y # replicate (n - Suc k) Pauli_I, c * (- \<i>))"
    using dmul_unit [OF Cons.prems(1), of Pauli_X "n - Suc k" c Pauli_Z 1]
    by (simp add: drow_of_id_tab [OF kn])
  have ii: "c * \<i> * \<i> = - c" by (simp add: mult.assoc)
  show ?case
  proof (cases p)
    case Pauli_I
    with ih [of c] show ?thesis by (simp add: rep)
  next
    case Pauli_X
    with ih [of c] X show ?thesis by (simp add: rep)
  next
    case Pauli_Y
    with ih [of c] X Y show ?thesis by (simp add: rep ii)
  next
    case Pauli_Z
    with ih [of c] Z show ?thesis by (simp add: rep)
  qed
qed

lemma sign_of_real: "sign_of t r = 1 \<or> sign_of t r = - 1"
  by (simp add: sign_of_def)

lemma crow_id_left:
  assumes "tableau_over n u" "r < 2 * n"
  shows "crow (id_tab n) u n r = drow_of u r"
proof (cases "r < n")
  case True
  have l: "length (paulis_of (tab u) r) = n" using assms by (rule length_paulis_of)
  show ?thesis
    using True l
    by (simp add: crow_def id_tab_paulis id_tab_sign dloop_unit_row dmul_def drow_of_def
          dmul_paulis_I_left dmul_coeff_I_left)
next
  case False
  define i where "i = r - n"
  have i: "i < n" "r = i + n" using False assms(2) by (simp_all add: i_def)
  have l: "length (paulis_of (tab u) (i + n)) = n"
    using assms i by (intro length_paulis_of) auto
  show ?thesis
    using i(1) l unfolding i(2)
    by (simp add: crow_def id_tab_paulis id_tab_sign dloop_unit_row dmul_def drow_of_def
          dmul_paulis_I_left dmul_coeff_I_left)
qed

lemma crow_id_right:
  assumes "tableau_over n u" "r < 2 * n"
  shows "crow u (id_tab n) n r = drow_of u r"
proof -
  have l: "length (paulis_of (tab u) r) = n" using assms by (rule length_paulis_of)
  show ?thesis
    using dloop_id_tab [of "[]" 0 "paulis_of (tab u) r" n "sign_of (tab u) r"] l
    by (simp add: crow_def drow_of_def)
qed

lemma is_x_to_pauli:
  "length xs = length zs \<Longrightarrow>
   map (\<lambda>p. p = Pauli_X \<or> p = Pauli_Y) (map2 to_pauli xs zs) = xs"
  by (auto simp: list_eq_iff_nth_eq to_pauli_def)

lemma is_z_to_pauli:
  "length xs = length zs \<Longrightarrow>
   map (\<lambda>p. p = Pauli_Z \<or> p = Pauli_Y) (map2 to_pauli xs zs) = zs"
  by (auto simp: list_eq_iff_nth_eq to_pauli_def)

lemma map_upt_eqI:
  "length xs = k \<Longrightarrow> (\<And>r. r < k \<Longrightarrow> f r = xs ! r) \<Longrightarrow> map f [0..<k] = xs"
  by (auto simp: list_eq_iff_nth_eq)

lemma tableau_of_drows:
  assumes "tableau_over n u"
  shows "\<lparr>tab = \<lparr>xmat = map (\<lambda>r. map (\<lambda>p. p = Pauli_X \<or> p = Pauli_Y) (fst (drow_of u r))) [0..<2 * n],
                 zmat = map (\<lambda>r. map (\<lambda>p. p = Pauli_Z \<or> p = Pauli_Y) (fst (drow_of u r))) [0..<2 * n],
                 phase = map (\<lambda>r. snd (drow_of u r) \<noteq> 1) [0..<2 * n]\<rparr>,
          qubits = default_qubits n\<rparr> = u"
proof -
  have len: "length (xmat (tab u)) = 2 * n" "length (zmat (tab u)) = 2 * n"
    "length (phase (tab u)) = 2 * n"
    using assms by (simp_all add: tableau_over_def)
  have x: "map (\<lambda>r. map (\<lambda>p. p = Pauli_X \<or> p = Pauli_Y) (fst (drow_of u r))) [0..<2 * n] =
           xmat (tab u)"
  proof (rule map_upt_eqI [OF len(1)])
    fix r assume r: "r < 2 * n"
    show "map (\<lambda>p. p = Pauli_X \<or> p = Pauli_Y) (fst (drow_of u r)) = xmat (tab u) ! r"
      unfolding drow_of_def paulis_of_def fst_conv
      by (rule is_x_to_pauli) (simp add: tableau_over_rows [OF assms r])
  qed
  have z: "map (\<lambda>r. map (\<lambda>p. p = Pauli_Z \<or> p = Pauli_Y) (fst (drow_of u r))) [0..<2 * n] =
           zmat (tab u)"
  proof (rule map_upt_eqI [OF len(2)])
    fix r assume r: "r < 2 * n"
    show "map (\<lambda>p. p = Pauli_Z \<or> p = Pauli_Y) (fst (drow_of u r)) = zmat (tab u) ! r"
      unfolding drow_of_def paulis_of_def fst_conv
      by (rule is_z_to_pauli) (simp add: tableau_over_rows [OF assms r])
  qed
  have p: "map (\<lambda>r. snd (drow_of u r) \<noteq> 1) [0..<2 * n] = phase (tab u)"
    by (rule map_upt_eqI [OF len(3)]) (simp add: drow_of_def sign_of_def)
  have q: "qubits u = default_qubits n" using assms by (simp add: tableau_over_def)
  show ?thesis unfolding x z p q [symmetric] by simp
qed

lemma tableau_of_rows:
  assumes "tableau_over n u" and R: "\<And>r. r < 2 * n \<Longrightarrow> R r = drow_of u r"
  shows "\<lparr>tab = \<lparr>xmat = map (\<lambda>r. map (\<lambda>p. p = Pauli_X \<or> p = Pauli_Y) (fst (R r))) [0..<2 * n],
                 zmat = map (\<lambda>r. map (\<lambda>p. p = Pauli_Z \<or> p = Pauli_Y) (fst (R r))) [0..<2 * n],
                 phase = map (\<lambda>r. snd (R r) \<noteq> 1) [0..<2 * n]\<rparr>,
          qubits = default_qubits n\<rparr> = u"
proof -
  have a: "map (\<lambda>r. map (\<lambda>p. p = Pauli_X \<or> p = Pauli_Y) (fst (R r))) [0..<2 * n] =
        map (\<lambda>r. map (\<lambda>p. p = Pauli_X \<or> p = Pauli_Y) (fst (drow_of u r))) [0..<2 * n]"
    by (rule map_cong) (simp_all add: R)
  have b: "map (\<lambda>r. map (\<lambda>p. p = Pauli_Z \<or> p = Pauli_Y) (fst (R r))) [0..<2 * n] =
        map (\<lambda>r. map (\<lambda>p. p = Pauli_Z \<or> p = Pauli_Y) (fst (drow_of u r))) [0..<2 * n]"
    by (rule map_cong) (simp_all add: R)
  have c: "map (\<lambda>r. snd (R r) \<noteq> 1) [0..<2 * n] =
        map (\<lambda>r. snd (drow_of u r) \<noteq> 1) [0..<2 * n]"
    by (rule map_cong) (simp_all add: R)
  show ?thesis unfolding a b c by (rule tableau_of_drows [OF assms(1)])
qed

lemma compose_id_left:
  assumes "tableau_over n u"
  shows "compose (id_tab n) u = Inr u"
proof -
  have "compose (id_tab n) u = Inr \<lparr>tab = \<lparr>xmat = map (\<lambda>r. map (\<lambda>p. p = Pauli_X \<or> p = Pauli_Y) (fst (crow (id_tab n) u n r))) [0..<2 * n],
                 zmat = map (\<lambda>r. map (\<lambda>p. p = Pauli_Z \<or> p = Pauli_Y) (fst (crow (id_tab n) u n r))) [0..<2 * n],
                 phase = map (\<lambda>r. snd (crow (id_tab n) u n r) \<noteq> 1) [0..<2 * n]\<rparr>,
          qubits = default_qubits n\<rparr>"
    using id_tab_over assms
    by (rule compose_dense) (simp add: crow_id_left [OF assms] drow_of_def sign_of_real)
  also have "\<dots> = Inr u"
    using tableau_of_rows [OF assms, of "crow (id_tab n) u n"] crow_id_left [OF assms]
    by (simp only:)
  finally show ?thesis .
qed

lemma compose_id_right:
  assumes "tableau_over n u"
  shows "compose u (id_tab n) = Inr u"
proof -
  have "compose u (id_tab n) = Inr \<lparr>tab = \<lparr>xmat = map (\<lambda>r. map (\<lambda>p. p = Pauli_X \<or> p = Pauli_Y) (fst (crow u (id_tab n) n r))) [0..<2 * n],
                 zmat = map (\<lambda>r. map (\<lambda>p. p = Pauli_Z \<or> p = Pauli_Y) (fst (crow u (id_tab n) n r))) [0..<2 * n],
                 phase = map (\<lambda>r. snd (crow u (id_tab n) n r) \<noteq> 1) [0..<2 * n]\<rparr>,
          qubits = default_qubits n\<rparr>"
    using assms id_tab_over
    by (rule compose_dense) (simp add: crow_id_right [OF assms] drow_of_def sign_of_real)
  also have "\<dots> = Inr u"
    using tableau_of_rows [OF assms, of "crow u (id_tab n) n"] crow_id_right [OF assms]
    by (simp only:)
  finally show ?thesis .
qed

lemma dot2_zero_left [simp]: "dot2 (replicate n False) b = False"
proof -
  have "filter (\<lambda>(x, y). x \<and> y) (zip (replicate n False) b) = []"
    by (auto simp: filter_empty_conv set_zip)
  then show ?thesis by (simp add: dot2_def)
qed

lemma dot2_zero_right [simp]: "dot2 a (replicate n False) = False"
proof -
  have "filter (\<lambda>(x, y). x \<and> y) (zip a (replicate n False)) = []"
    by (auto simp: filter_empty_conv set_zip)
  then show ?thesis by (simp add: dot2_def)
qed

lemma count_unit: "length (filter (\<lambda>j. i = j \<and> k = j) [0..<n]) = (if i = k \<and> i < n then 1 else 0)"
  by (induction n) auto

lemma dot2_units:
  "dot2 (map (\<lambda>j. i = j) [0..<n]) (map (\<lambda>j. k = j) [0..<n]) = (i = k \<and> i < n)"
proof -
  have "zip (map (\<lambda>j. i = j) [0..<n]) (map (\<lambda>j. k = j) [0..<n]) =
        map (\<lambda>j. (i = j, k = j)) [0..<n]"
    by (simp add: zip_map_map zip_same_conv_map)
  then have "length (filter (\<lambda>(x, y). x \<and> y)
               (zip (map (\<lambda>j. i = j) [0..<n]) (map (\<lambda>j. k = j) [0..<n]))) =
             length (filter (\<lambda>j. i = j \<and> k = j) [0..<n])"
    by (simp add: filter_map comp_def)
  then show ?thesis by (simp add: dot2_def count_unit)
qed

lemma id_tab_symplectic: "is_symplectic n (tab (id_tab n))"
  unfolding is_symplectic_def
proof (intro ballI)
  fix i j assume "i \<in> set [0..<n]" "j \<in> set [0..<n]"
  then have ij: "i < n" "j < n" by simp_all
  have a: "xmat (tab (id_tab n)) ! (n + j) = replicate n False"
    "zmat (tab (id_tab n)) ! (n + j) = map (\<lambda>k. j = k) [0..<n]"
    "xmat (tab (id_tab n)) ! (n + i) = replicate n False"
    "zmat (tab (id_tab n)) ! (n + i) = map (\<lambda>k. i = k) [0..<n]"
    using id_tab_rows(3,4) [OF ij(1)] id_tab_rows(3,4) [OF ij(2)] by (simp_all add: add.commute)
  show "symplectic_form (tab (id_tab n)) i (n + j) = (i = j) \<and>
        \<not> symplectic_form (tab (id_tab n)) i j \<and>
        \<not> symplectic_form (tab (id_tab n)) (n + i) (n + j)"
    using ij by (simp add: symplectic_form_def a id_tab_rows dot2_units)
qed

section \<open>Row products and anticommutation\<close>

lemma mult_matrix_snd_commute: "snd (mult_matrix p q) = snd (mult_matrix q p)"
  by (cases p; cases q) simp_all

lemma mult_matrix_fst_cnj: "fst (mult_matrix q p) = cnj (fst (mult_matrix p q))"
  by (cases p; cases q) simp_all

lemma mult_matrix_fst_class:
  "fst (mult_matrix p q) = (if anti p q then fst (mult_matrix p q) else 1)"
  "anti p q \<Longrightarrow> fst (mult_matrix p q) = \<i> \<or> fst (mult_matrix p q) = - \<i>"
  by (cases p; cases q; simp add: anti_def)+

lemma dmul_paulis_commute: "dmul_paulis ps qs = dmul_paulis qs ps"
proof (induction ps arbitrary: qs)
  case Nil
  then show ?case by (simp add: dmul_paulis_def)
next
  case (Cons p ps)
  then show ?case
    by (cases qs) (simp_all add: dmul_paulis_def mult_matrix_snd_commute)
qed

lemma dmul_coeff_cnj: "dmul_coeff qs ps = cnj (dmul_coeff ps qs)"
proof (induction ps arbitrary: qs)
  case Nil
  then show ?case by (simp add: dmul_coeff_def)
next
  case (Cons p ps)
  show ?case
  proof (cases qs)
    case Nil
    then show ?thesis by (simp add: dmul_coeff_def)
  next
    case (Cons q qs')
    with Cons.IH [of qs'] show ?thesis
      by (simp add: dmul_coeff_def mult_matrix_fst_cnj [of q p])
  qed
qed

lemma dmul_coeff_Cons:
  "dmul_coeff (p # ps) (q # qs) = fst (mult_matrix p q) * dmul_coeff ps qs"
  by (simp add: dmul_coeff_def)

lemma anti_count_Cons:
  "anti_count (p # ps) (q # qs) = (if anti p q then Suc (anti_count ps qs) else anti_count ps qs)"
  by (simp add: anti_count_def)

lemma dmul_coeff_class:
  "if odd (anti_count ps qs) then dmul_coeff ps qs = \<i> \<or> dmul_coeff ps qs = - \<i>
   else dmul_coeff ps qs = 1 \<or> dmul_coeff ps qs = - 1"
proof (induction ps arbitrary: qs)
  case Nil
  then show ?case by (simp add: dmul_coeff_def anti_count_def)
next
  case (Cons p ps)
  show ?case
  proof (cases qs)
    case Nil
    then show ?thesis by (simp add: dmul_coeff_def anti_count_def)
  next
    case (Cons q qs')
    show ?thesis
    proof (cases "anti p q")
      case True
      with mult_matrix_fst_class(2) [OF True] Cons.IH [of qs'] show ?thesis
        unfolding Cons dmul_coeff_Cons anti_count_Cons
        by (auto split: if_splits)
    next
      case False
      with mult_matrix_fst_class(1) [of p q] Cons.IH [of qs'] show ?thesis
        unfolding Cons dmul_coeff_Cons anti_count_Cons
        by (auto split: if_splits)
    qed
  qed
qed

lemma anti_to_pauli:
  "anti (to_pauli x1 z1) (to_pauli x2 z2) \<longleftrightarrow> ((x1 \<and> z2) \<noteq> (x2 \<and> z1))"
  by (auto simp: anti_def to_pauli_def)

lemma dot2_Cons: "dot2 (a # as) (b # bs) = ((a \<and> b) \<noteq> dot2 as bs)"
  by (auto simp: dot2_def)

lemma dot2_Nil [simp]: "dot2 [] bs = False" "dot2 as [] = False"
  by (simp_all add: dot2_def)

lemma symplectic_anti_count:
  "length zi = length xi \<Longrightarrow> length xj = length xi \<Longrightarrow> length zj = length xi \<Longrightarrow>
   (dot2 xi zj \<noteq> dot2 xj zi) =
     odd (anti_count (map2 to_pauli xi zi) (map2 to_pauli xj zj))"
proof (induction xi arbitrary: zi xj zj)
  case Nil
  then show ?case by (simp add: anti_count_def)
next
  case (Cons a xi)
  from Cons.prems obtain b zi' c xj' d zj' where
    e: "zi = b # zi'" "xj = c # xj'" "zj = d # zj'"
    by (metis length_Suc_conv)
  have ih: "(dot2 xi zj' \<noteq> dot2 xj' zi') =
     odd (anti_count (map2 to_pauli xi zi') (map2 to_pauli xj' zj'))"
    using Cons.prems by (intro Cons.IH) (simp_all add: e)
  show ?case
    using ih by (auto simp: e dot2_Cons anti_count_Cons anti_to_pauli)
qed

lemma symplectic_form_anti:
  assumes "tableau_over n u" "i < 2 * n" "j < 2 * n"
  shows "symplectic_form (tab u) i j =
           odd (anti_count (paulis_of (tab u) i) (paulis_of (tab u) j))"
  unfolding symplectic_form_def paulis_of_def
  by (rule symplectic_anti_count)
     (simp_all add: tableau_over_rows [OF assms(1,2)] tableau_over_rows [OF assms(1,3)])

lemma to_pauli_xor:
  "to_pauli (xa \<noteq> xb) (za \<noteq> zb) = snd (mult_matrix (to_pauli xa za) (to_pauli xb zb))"
  by (simp add: to_pauli_def)

lemma to_pauli_xor':
  "to_pauli (xa = (\<not> xb)) (za = (\<not> zb)) = snd (mult_matrix (to_pauli xa za) (to_pauli xb zb))"
  by (simp add: to_pauli_def)

lemma paulis_xor:
  "length za = length xa \<Longrightarrow> length xb = length xa \<Longrightarrow> length zb = length xa \<Longrightarrow>
   map2 to_pauli (map2 (\<lambda>a b. a = (\<not> b)) xa xb) (map2 (\<lambda>a b. a = (\<not> b)) za zb) =
     dmul_paulis (map2 to_pauli xa za) (map2 to_pauli xb zb)"
  by (simp add: list_eq_iff_nth_eq dmul_paulis_def to_pauli_xor')


lemma crow_cong:
  "drow_of g r = drow_of g' r \<Longrightarrow> crow g u n r = crow g' u n r"
  by (simp add: crow_def drow_of_def)

lemma crow_drow:
  "crow g u n r = dloop u n (fst (drow_of g r)) 0 (replicate n Pauli_I, snd (drow_of g r))"
  by (simp add: crow_def drow_of_def)

lemma compose_eqI:
  assumes g: "tableau_over n g" and u: "tableau_over n u" and u': "tableau_over n u'"
    and rows: "\<And>r. r < 2 * n \<Longrightarrow> crow g u n r = drow_of u' r"
  shows "compose g u = Inr u'"
proof -
  have real: "snd (crow g u n r) = 1 \<or> snd (crow g u n r) = - 1" if "r < 2 * n" for r
    using rows [OF that] sign_of_real [of "tab u'" r] by (simp add: drow_of_def)
  have "compose g u = Inr \<lparr>tab = \<lparr>xmat = map (\<lambda>r. map (\<lambda>p. p = Pauli_X \<or> p = Pauli_Y) (fst (crow g u n r))) [0..<2 * n],
                 zmat = map (\<lambda>r. map (\<lambda>p. p = Pauli_Z \<or> p = Pauli_Y) (fst (crow g u n r))) [0..<2 * n],
                 phase = map (\<lambda>r. snd (crow g u n r) \<noteq> 1) [0..<2 * n]\<rparr>,
          qubits = default_qubits n\<rparr>"
    using g u real by (rule compose_dense)
  also have "\<dots> = Inr u'"
    using tableau_of_rows [OF u', of "crow g u n"] rows by (simp only:)
  finally show ?thesis .
qed

lemma signed_real: "c = 1 \<or> c = - 1 \<Longrightarrow> signed c = c"
  by (auto simp: signed_def)

lemma dloop_map_upt:
  "k \<le> m \<Longrightarrow>
   dloop u n (map f [k..<m]) k res = fold (\<lambda>i r. dloop u n [f i] i r) [k..<m] res"
proof (induction m)
  case 0
  then show ?case by simp
next
  case (Suc m)
  show ?case
  proof (cases "k = Suc m")
    case True
    then show ?thesis by simp
  next
    case False
    with Suc.prems have km: "k \<le> m" by simp
    then have "[k..<Suc m] = [k..<m] @ [m]" by simp
    then show ?thesis
      using Suc.IH [OF km] km by (simp add: dloop_append)
  qed
qed

lemma fold_skip:
  "(\<And>x. x \<in> set xs \<Longrightarrow> g x = id) \<Longrightarrow> fold g xs = id"
  by (induction xs) simp_all

lemma dloop_two:
  assumes "i < j" "j < n"
  shows "dloop u n (map (\<lambda>k. if k = i \<or> k = j then p else Pauli_I) [0..<n]) 0 res =
           dloop u n [p] j (dloop u n [p] i res)"
proof -
  let ?f = "\<lambda>k. if k = i \<or> k = j then p else Pauli_I"
  let ?g = "\<lambda>k r. dloop u n [?f k] k r"
  have split: "[0..<n] = [0..<i] @ [i] @ [Suc i..<j] @ [j] @ [Suc j..<n]"
  proof -
    have "[0..<n] = [0..<i] @ [i..<n]"
      using assms upt_add_eq_append [of 0 i "n - i"] by simp
    moreover have "[i..<n] = i # [Suc i..<n]" using assms by (simp add: upt_conv_Cons)
    moreover have "[Suc i..<n] = [Suc i..<j] @ [j..<n]"
      using assms upt_add_eq_append [of "Suc i" j "n - j"] by simp
    moreover have "[j..<n] = j # [Suc j..<n]" using assms by (simp add: upt_conv_Cons)
    ultimately show ?thesis by simp
  qed
  have a: "fold ?g [0..<i] = id" by (rule fold_skip) (use assms in \<open>auto simp: fun_eq_iff\<close>)
  have b: "fold ?g [Suc i..<j] = id" by (rule fold_skip) (use assms in \<open>auto simp: fun_eq_iff\<close>)
  have c: "fold ?g [Suc j..<n] = id" by (rule fold_skip) (use assms in \<open>auto simp: fun_eq_iff\<close>)
  have "dloop u n (map ?f [0..<n]) 0 res = fold ?g [0..<n] res"
    by (rule dloop_map_upt) simp
  also have "\<dots> = ?g j (?g i res)"
    by (subst split) (simp add: a b c del: dloop.simps)
  also have "\<dots> = dloop u n [p] j (dloop u n [p] i res)"
    using assms by simp
  finally show ?thesis .
qed

lemma dmul_paulis_nth:
  "k < length ps \<Longrightarrow> k < length qs \<Longrightarrow>
   dmul_paulis ps qs ! k = snd (mult_matrix (ps ! k) (qs ! k))"
  by (simp add: dmul_paulis_def)

lemma length_dmul_paulis [simp]:
  "length (dmul_paulis ps qs) = min (length ps) (length qs)"
  by (simp add: dmul_paulis_def)

lemma dmul_id_left:
  "length (fst b) = n \<Longrightarrow> dmul (replicate n Pauli_I, s) b = (fst b, s * snd b)"
  by (simp add: dmul_def dmul_paulis_I_left dmul_coeff_I_left)

lemma crow_same_row:
  assumes "tableau_over n t" "r < 2 * n" "drow_of g r = drow_of (id_tab n) r"
  shows "crow g t n r = drow_of t r"
  using crow_cong [OF assms(3), of t n] crow_id_left [OF assms(1,2)] by simp

lemma crow_Y_row:
  assumes "tableau_over n t" "q < n" "drow_of g r = (unit_row n q Pauli_Y, s)"
  shows "crow g t n r =
           (dmul_paulis (paulis_of (tab t) q) (paulis_of (tab t) (q + n)),
            s * sign_of (tab t) q * sign_of (tab t) (q + n) *
              dmul_coeff (paulis_of (tab t) q) (paulis_of (tab t) (q + n)) * \<i>)"
proof -
  have l: "length (fst (drow_of t q)) = n"
    using length_paulis_of [OF assms(1), of q] assms(2) by (simp add: drow_of_def)
  show ?thesis
    unfolding crow_drow assms(3) fst_conv snd_conv dloop_unit_row
    by (simp add: dmul_id_left [OF l]) (simp add: dmul_def drow_of_def)
qed

lemma crow_XX_row:
  assumes "tableau_over n t" "a < b" "b < n"
    and "drow_of g r = (map (\<lambda>k. if k = a \<or> k = b then Pauli_X else Pauli_I) [0..<n], s)"
  shows "crow g t n r =
           (dmul_paulis (paulis_of (tab t) a) (paulis_of (tab t) b),
            s * sign_of (tab t) a * sign_of (tab t) b *
              dmul_coeff (paulis_of (tab t) a) (paulis_of (tab t) b))"
proof -
  have l: "length (fst (drow_of t a)) = n"
    using length_paulis_of [OF assms(1), of a] assms(2,3) by (simp add: drow_of_def)
  show ?thesis
    unfolding crow_drow assms(4) fst_conv snd_conv dloop_two [OF assms(2,3)]
    by (simp add: dmul_id_left [OF l]) (simp add: dmul_def drow_of_def)
qed

lemma crow_ZZ_row:
  assumes "tableau_over n t" "a < b" "b < n"
    and "drow_of g r = (map (\<lambda>k. if k = a \<or> k = b then Pauli_Z else Pauli_I) [0..<n], s)"
  shows "crow g t n r =
           (dmul_paulis (paulis_of (tab t) (a + n)) (paulis_of (tab t) (b + n)),
            s * sign_of (tab t) (a + n) * sign_of (tab t) (b + n) *
              dmul_coeff (paulis_of (tab t) (a + n)) (paulis_of (tab t) (b + n)))"
proof -
  have l: "length (fst (drow_of t (a + n))) = n"
    using length_paulis_of [OF assms(1), of "a + n"] assms(2,3) by (simp add: drow_of_def)
  show ?thesis
    unfolding crow_drow assms(4) fst_conv snd_conv dloop_two [OF assms(2,3)]
    by (simp add: dmul_id_left [OF l]) (simp add: dmul_def drow_of_def)
qed

lemma symplectic_rows:
  assumes "tableau_over n t" "is_symplectic n (tab t)" "i < n" "j < n"
  shows "odd (anti_count (paulis_of (tab t) i) (paulis_of (tab t) (j + n))) = (i = j)"
    and "even (anti_count (paulis_of (tab t) i) (paulis_of (tab t) j))"
    and "even (anti_count (paulis_of (tab t) (i + n)) (paulis_of (tab t) (j + n)))"
proof -
  have s: "symplectic_form (tab t) i (n + j) = (i = j)"
    "\<not> symplectic_form (tab t) i j" "\<not> symplectic_form (tab t) (n + i) (n + j)"
    using assms(2,3,4) by (simp_all add: is_symplectic_def)
  show "odd (anti_count (paulis_of (tab t) i) (paulis_of (tab t) (j + n))) = (i = j)"
    using s(1) symplectic_form_anti [OF assms(1), of i "n + j"] assms(3,4)
    by (simp add: add.commute)
  show "even (anti_count (paulis_of (tab t) i) (paulis_of (tab t) j))"
    using s(2) symplectic_form_anti [OF assms(1), of i j] assms(3,4) by simp
  show "even (anti_count (paulis_of (tab t) (i + n)) (paulis_of (tab t) (j + n)))"
    using s(3) symplectic_form_anti [OF assms(1), of "n + i" "n + j"] assms(3,4)
    by (simp add: add.commute)
qed

lemma pauli_bits_inverse:
  "map2 to_pauli (map (\<lambda>p. p = Pauli_X \<or> p = Pauli_Y) ps)
                 (map (\<lambda>p. p = Pauli_Z \<or> p = Pauli_Y) ps) = ps"
proof (induction ps)
  case Nil
  show ?case by simp
next
  case (Cons p ps)
  then show ?case by (cases p) (simp_all add: to_pauli_def)
qed

lemma images_row:
  assumes "r < length rws"
  shows "drow_of
           \<lparr>tab = \<lparr>xmat = map (\<lambda>r. map (\<lambda>p. p = Pauli_X \<or> p = Pauli_Y) (fst r)) rws,
                   zmat = map (\<lambda>r. map (\<lambda>p. p = Pauli_Z \<or> p = Pauli_Y) (fst r)) rws,
                   phase = map (\<lambda>r. snd r = - 1) rws\<rparr>,
            qubits = qs\<rparr> r =
         (fst (rws ! r), if snd (rws ! r) = - 1 then - 1 else 1)"
  using assms by (simp add: drow_of_def paulis_of_def sign_of_def pauli_bits_inverse)

lemma images_rows:
  assumes X: "\<And>k. k < n \<Longrightarrow> length (fst (X k)) = n \<and> (snd (X k) = 1 \<or> snd (X k) = - 1)"
    and Z: "\<And>k. k < n \<Longrightarrow> length (fst (Z k)) = n \<and> (snd (Z k) = 1 \<or> snd (Z k) = - 1)"
  shows "tableau_over n (tableau_of_images n X Z)"
    and "k < n \<Longrightarrow> drow_of (tableau_of_images n X Z) k = X k"
    and "k < n \<Longrightarrow> drow_of (tableau_of_images n X Z) (k + n) = Z k"
proof -
  let ?rows = "map X [0..<n] @ map Z [0..<n]"
  have len: "\<forall>r \<in> set ?rows. length (fst r) = n"
    using X Z by auto
  show "tableau_over n (tableau_of_images n X Z)"
    using len by (auto simp: tableau_over_def tableau_of_images_def Let_def list_all_iff)
  have sg: "(fst r, if snd r = - 1 then - 1 else 1) = r" if "snd r = 1 \<or> snd r = - 1"
    for r :: "Pauli list \<times> complex"
    using that by (cases r) auto
  assume k: "k < n"
  have x: "?rows ! k = X k" using k by (simp add: nth_append)
  have z: "?rows ! (k + n) = Z k" using k by (simp add: nth_append)
  have "drow_of (tableau_of_images n X Z) k =
          (fst (?rows ! k), if snd (?rows ! k) = - 1 then - 1 else 1)"
    unfolding tableau_of_images_def Let_def using k by (intro images_row) simp
  then show "drow_of (tableau_of_images n X Z) k = X k"
    unfolding x using sg [of "X k"] X [OF k] by simp
  have "drow_of (tableau_of_images n X Z) (k + n) =
          (fst (?rows ! (k + n)), if snd (?rows ! (k + n)) = - 1 then - 1 else 1)"
    unfolding tableau_of_images_def Let_def using k by (intro images_row) simp
  then show "drow_of (tableau_of_images n X Z) (k + n) = Z k"
    unfolding z using sg [of "Z k"] Z [OF k] by simp
qed

lemma on_qubits_single: "q < n \<Longrightarrow> on_qubits n [q] p = unit_row n q p"
  by (simp add: on_qubits_def list_eq_iff_nth_eq unit_row_nth)

lemma on_qubits_two:
  "on_qubits n [a, b] p = map (\<lambda>k. if k = a \<or> k = b then p else Pauli_I) [0..<n]"
  by (simp add: on_qubits_def)

lemma length_on_qubits [simp]: "length (on_qubits n qs p) = n"
  by (simp add: on_qubits_def)

lemma id_tab_drows:
  assumes "k < n"
  shows "drow_of (id_tab n) k = (unit_row n k Pauli_X, 1)"
    and "drow_of (id_tab n) (k + n) = (unit_row n k Pauli_Z, 1)"
  using assms by (simp_all add: drow_of_def id_tab_paulis id_tab_sign)

lemma row_cases:
  assumes "r < 2 * (n::nat)"
  obtains (X) "r < n" | (Z) k where "k < n" "r = k + n"
proof (cases "r < n")
  case True
  then show ?thesis by (rule X)
next
  case False
  then have "r - n < n" "r = (r - n) + n" using assms by simp_all
  then show ?thesis by (rule Z)
qed



lemma CX_tableau_rows:
  assumes c: "c < n" and tg: "tg < n"
  shows "tableau_over n (CX_tableau n c tg)"
    and "r < 2 * n \<Longrightarrow> drow_of (CX_tableau n c tg) r =
           (if r = c
            then (map (\<lambda>k. if k = c \<or> k = tg then Pauli_X else Pauli_I) [0..<n], 1)
            else if r = tg + n
            then (map (\<lambda>k. if k = c \<or> k = tg then Pauli_Z else Pauli_I) [0..<n], 1)
            else drow_of (id_tab n) r)"
proof -
  let ?X = "\<lambda>k. if k = c then (on_qubits n [c, tg] Pauli_X, 1::complex)
                 else (on_qubits n [k] Pauli_X, 1)"
  let ?Z = "\<lambda>k. if k = tg then (on_qubits n [c, tg] Pauli_Z, 1::complex)
                 else (on_qubits n [k] Pauli_Z, 1)"
  have X: "length (fst (?X k)) = n \<and> (snd (?X k) = 1 \<or> snd (?X k) = - 1)" for k by simp
  have Z: "length (fst (?Z k)) = n \<and> (snd (?Z k) = 1 \<or> snd (?Z k) = - 1)" for k by simp
  note rows = images_rows [of n ?X ?Z, OF X Z, folded CX_tableau_def]
  show "tableau_over n (CX_tableau n c tg)" by (rule rows(1))
  assume "r < 2 * n"
  then show "drow_of (CX_tableau n c tg) r =
           (if r = c
            then (map (\<lambda>k. if k = c \<or> k = tg then Pauli_X else Pauli_I) [0..<n], 1)
            else if r = tg + n
            then (map (\<lambda>k. if k = c \<or> k = tg then Pauli_Z else Pauli_I) [0..<n], 1)
            else drow_of (id_tab n) r)"
  proof (cases rule: row_cases)
    case X
    then show ?thesis
      using rows(2) [OF X] c tg
      by (simp add: id_tab_drows on_qubits_single on_qubits_two)
  next
    case (Z k)
    then show ?thesis
      using rows(3) [OF Z(1)] c tg
      by (simp add: id_tab_drows on_qubits_single on_qubits_two)
  qed
qed

lemma imag_times_i:
  "d = \<i> \<or> d = - \<i> \<Longrightarrow> a = 1 \<or> a = - 1 \<Longrightarrow> b = 1 \<or> b = - 1 \<Longrightarrow>
   signed (\<i> * a * b * cnj d) = - 1 * b * a * d * \<i> \<and>
   signed (\<i> * a * b * d) = 1 * a * b * d * \<i>"
  by (auto simp: signed_def)




lemma real_pair:
  assumes "even (anti_count ps qs)" "a = 1 \<or> a = - 1" "b = 1 \<or> b = - 1"
  shows "signed (a * b * dmul_coeff ps qs) = a * b * dmul_coeff ps qs"
    and "dmul_coeff qs ps = dmul_coeff ps qs"
proof -
  have d: "dmul_coeff ps qs = 1 \<or> dmul_coeff ps qs = - 1"
    using dmul_coeff_class [of ps qs] assms(1) by simp
  show "signed (a * b * dmul_coeff ps qs) = a * b * dmul_coeff ps qs"
    using d assms(2,3) by (auto simp: signed_def)
  show "dmul_coeff qs ps = dmul_coeff ps qs"
    using d dmul_coeff_cnj [of qs ps] by auto
qed

lemma two_cells_commute:
  "map (\<lambda>k. if k = a \<or> k = b then p else Pauli_I) [0..<n] =
   map (\<lambda>k. if k = b \<or> k = a then p else Pauli_I) [0..<n]"
  by (rule map_cong) auto


lemma apply_S_at_front_over:
  "tableau_over n u \<Longrightarrow> q < n \<Longrightarrow>
   apply_S_at_front rm (Qubit q) u = Inr (u\<lparr>tab := rm (tab u) (q + n) q \<i>\<rparr>)"
  by (simp add: apply_S_at_front_def tableau_over_def)

lemma apply_V_at_front_over:
  "tableau_over n u \<Longrightarrow> q < n \<Longrightarrow>
   apply_V_at_front rm (Qubit q) u = Inr (u\<lparr>tab := rm (tab u) q (q + n) \<i>\<rparr>)"
  by (simp add: apply_V_at_front_def tableau_over_def)

lemma apply_CX_at_front_over:
  "tableau_over n u \<Longrightarrow> c < n \<Longrightarrow> tg < n \<Longrightarrow>
   apply_CX_at_front rm (Qubit c) (Qubit tg) u =
     Inr (u\<lparr>tab := rm (rm (tab u) tg c 1) (c + n) (tg + n) 1\<rparr>)"
  by (simp add: apply_CX_at_front_def tableau_over_def Let_def)

section \<open>The images of the Paulis under S, V and CX\<close>

lemmas mat_defs = mat_mul_def adjoint_def conjugate_by_def scale_def kron_def
  S_mat_def V_mat_def CX_mat_def upt_conv_Cons

text \<open>The table \<open>mult_matrix p q\<close> is the matrix product \<open>p \<cdot> q\<close>, for instance \<open>X \<cdot> Z = -\<i> Y\<close>.\<close>

lemma mult_matrix_product:
  "mat_mul (pauli_mat p) (pauli_mat q) =
   scale (fst (mult_matrix p q)) (pauli_mat (snd (mult_matrix p q)))"
  by (cases p; cases q) (simp_all add: mat_defs)

text \<open>The three matrices are unitary, V is a square root of X, and S one of Z.\<close>

lemma gates_unitary:
  "mat_mul S_mat (adjoint S_mat) = pauli_mat Pauli_I"
  "mat_mul V_mat (adjoint V_mat) = pauli_mat Pauli_I"
  "mat_mul CX_mat (adjoint CX_mat) = kron (pauli_mat Pauli_I) (pauli_mat Pauli_I)"
  "mat_mul V_mat V_mat = pauli_mat Pauli_X"
  "mat_mul S_mat S_mat = pauli_mat Pauli_Z"
  by (simp_all add: mat_defs complex_eq_iff field_simps)

text \<open>The images that \<open>S_tableau\<close>, \<open>V_tableau\<close> and \<open>CX_tableau\<close> hold.\<close>

lemma S_images:
  "conjugate_by S_mat (pauli_mat Pauli_X) = pauli_mat Pauli_Y"
  "conjugate_by S_mat (pauli_mat Pauli_Z) = pauli_mat Pauli_Z"
  by (simp_all add: mat_defs)

lemma V_images:
  "conjugate_by V_mat (pauli_mat Pauli_X) = pauli_mat Pauli_X"
  "conjugate_by V_mat (pauli_mat Pauli_Z) = scale (- 1) (pauli_mat Pauli_Y)"
  by (simp_all add: mat_defs complex_eq_iff field_simps)

lemma inverse_images:
  "conjugate_by (adjoint S_mat) (pauli_mat Pauli_X) = scale (- 1) (pauli_mat Pauli_Y)"
  "conjugate_by (adjoint S_mat) (pauli_mat Pauli_Z) = pauli_mat Pauli_Z"
  "conjugate_by (adjoint V_mat) (pauli_mat Pauli_X) = pauli_mat Pauli_X"
  "conjugate_by (adjoint V_mat) (pauli_mat Pauli_Z) = pauli_mat Pauli_Y"
  by (simp_all add: mat_defs complex_eq_iff field_simps)

lemma CX_images:
  "conjugate_by CX_mat (kron (pauli_mat Pauli_X) (pauli_mat Pauli_I)) =
     kron (pauli_mat Pauli_X) (pauli_mat Pauli_X)"
  "conjugate_by CX_mat (kron (pauli_mat Pauli_I) (pauli_mat Pauli_X)) =
     kron (pauli_mat Pauli_I) (pauli_mat Pauli_X)"
  "conjugate_by CX_mat (kron (pauli_mat Pauli_Z) (pauli_mat Pauli_I)) =
     kron (pauli_mat Pauli_Z) (pauli_mat Pauli_I)"
  "conjugate_by CX_mat (kron (pauli_mat Pauli_I) (pauli_mat Pauli_Z)) =
     kron (pauli_mat Pauli_Z) (pauli_mat Pauli_Z)"
  by (simp_all add: mat_defs)

text \<open>
  On the identity tableau of one qubit, S and V at the front give the tableaux of S and V
  when \<open>row_mult\<close> multiplies in the order \<open>row w \<cdot> row a\<close>. With the factors exchanged the
  image of X under the first is \<open>-Y\<close> and the image of Z under the second is \<open>Y\<close>, which are
  the images under the inverses of S and V.
\<close>

lemma factor_order_decides:
  "apply_S_at_front row_mult (Qubit 0) (id_tab 1) = Inr (S_tableau 1 0)"
  "apply_V_at_front row_mult (Qubit 0) (id_tab 1) = Inr (V_tableau 1 0)"
  "and_then (apply_S_at_front row_mult (Qubit 0) (id_tab 1)) (\<lambda>u. get_xrow u (Qubit 0)) =
     Inr ([(Qubit 0, Pauli_Y)], 1)"
  "and_then (apply_S_at_front row_mult_left (Qubit 0) (id_tab 1)) (\<lambda>u. get_xrow u (Qubit 0)) =
     Inr ([(Qubit 0, Pauli_Y)], - 1)"
  "and_then (apply_V_at_front row_mult (Qubit 0) (id_tab 1)) (\<lambda>u. get_zrow u (Qubit 0)) =
     Inr ([(Qubit 0, Pauli_Y)], - 1)"
  "and_then (apply_V_at_front row_mult_left (Qubit 0) (id_tab 1)) (\<lambda>u. get_zrow u (Qubit 0)) =
     Inr ([(Qubit 0, Pauli_Y)], 1)"
  by (simp_all add: apply_S_at_front_def apply_V_at_front_def left_at_def id_tab_def
      default_qubits_def bimap_insert_def Qubit_def row_mult_def row_mult_left_def
      row_mult_rows_def to_pauli_def MatrixXb_Identity_def MatrixXb_Zero_def VectorXb_Zero_def
      S_tableau_def V_tableau_def tableau_of_images_def on_qubits_def get_xrow_def
      get_zrow_def row_tensor_def get_pauli_def right_at_def upt_conv_Cons numeral_2_eq_2)

text \<open>
  The case \<^verbatim>\<open>OpType::Z\<close> of the switch, lines 173 to 177, is S at the front twice. With the
  second row the one that \<open>row_mult\<close> writes, this negates the image of X and keeps the
  image of Z, as Z does, in either order of the factors.
\<close>

lemma Z_at_front_negates_X:
  "and_then (apply_gate_at_front optypeinfo_name row_mult OpType_Z [Qubit 0] (id_tab 1))
     (\<lambda>u. get_xrow u (Qubit 0)) = Inr ([(Qubit 0, Pauli_X)], - 1)"
  "and_then (apply_gate_at_front optypeinfo_name row_mult OpType_Z [Qubit 0] (id_tab 1))
     (\<lambda>u. get_zrow u (Qubit 0)) = Inr ([(Qubit 0, Pauli_Z)], 1)"
  "and_then (apply_gate_at_front optypeinfo_name row_mult_left OpType_Z [Qubit 0] (id_tab 1))
     (\<lambda>u. get_xrow u (Qubit 0)) = Inr ([(Qubit 0, Pauli_X)], - 1)"
  "and_then (apply_gate_at_front optypeinfo_name row_mult_left OpType_Z [Qubit 0] (id_tab 1))
     (\<lambda>u. get_zrow u (Qubit 0)) = Inr ([(Qubit 0, Pauli_Z)], 1)"
  by (simp_all add: apply_gate_at_front_def vec_at_def apply_S_at_front_def left_at_def
      id_tab_def default_qubits_def bimap_insert_def Qubit_def row_mult_def row_mult_left_def
      row_mult_rows_def to_pauli_def MatrixXb_Identity_def MatrixXb_Zero_def VectorXb_Zero_def
      get_xrow_def get_zrow_def row_tensor_def get_pauli_def right_at_def upt_conv_Cons
      numeral_2_eq_2)

section \<open>The factors of the row product exchanged\<close>

text \<open>
  With \<open>row_mult_left\<close>, which multiplies in the order \<open>row a \<cdot> row w\<close>, the calls of S and V at
  the front are pre-composition with the inverses of S and V, and those of CX at the front
  are still pre-composition with CX, whose rows commute.
\<close>

lemma row_mult_left_over:
  assumes "tableau_over n u" "ra < 2 * n" "rw < 2 * n"
  shows "tableau_over n (u\<lparr>tab := row_mult_left (tab u) ra rw c\<rparr>)"
    and "r < 2 * n \<Longrightarrow> drow_of (u\<lparr>tab := row_mult_left (tab u) ra rw c\<rparr>) r =
           (if r = rw
            then (dmul_paulis (paulis_of (tab u) ra) (paulis_of (tab u) rw),
                  signed (c * sign_of (tab u) ra * sign_of (tab u) rw *
                          dmul_coeff (paulis_of (tab u) ra) (paulis_of (tab u) rw)))
            else drow_of u r)"
proof -
  have len: "length (xmat (tab u)) = 2 * n" "length (zmat (tab u)) = 2 * n"
    "length (phase (tab u)) = 2 * n"
    using assms(1) by (simp_all add: tableau_over_def)
  have ra: "length (xmat (tab u) ! ra) = n" "length (zmat (tab u) ! ra) = n"
    using tableau_over_rows [OF assms(1,2)] by simp_all
  have rw: "length (xmat (tab u) ! rw) = n" "length (zmat (tab u) ! rw) = n"
    using tableau_over_rows [OF assms(1,3)] by simp_all
  have all: "\<forall>k<2 * n. length (xmat (tab u) ! k) = n \<and> length (zmat (tab u) ! k) = n"
    using assms(1) by (simp add: tableau_over_def list_all_length)
  have x': "xmat (row_mult_left (tab u) ra rw c) =
      (xmat (tab u))[rw := map2 (\<lambda>a b. a \<noteq> b) (xmat (tab u) ! ra) (xmat (tab u) ! rw)]"
    by (simp add: row_mult_left_def row_mult_rows_def Let_def)
  have z': "zmat (row_mult_left (tab u) ra rw c) =
      (zmat (tab u))[rw := map2 (\<lambda>a b. a \<noteq> b) (zmat (tab u) ! ra) (zmat (tab u) ! rw)]"
    by (simp add: row_mult_left_def row_mult_rows_def Let_def)
  have p': "length (phase (row_mult_left (tab u) ra rw c)) = 2 * n"
    by (simp add: row_mult_left_def row_mult_rows_def Let_def len)
  have ax: "\<forall>k<2 * n. length (xmat (row_mult_left (tab u) ra rw c) ! k) = n"
    unfolding x' using all ra rw len assms(3) by (simp add: nth_list_update)
  have az: "\<forall>k<2 * n. length (zmat (row_mult_left (tab u) ra rw c) ! k) = n"
    unfolding z' using all ra rw len assms(3) by (simp add: nth_list_update)
  have q: "qubits u = default_qubits n" using assms(1) by (simp add: tableau_over_def)
  show "tableau_over n (u\<lparr>tab := row_mult_left (tab u) ra rw c\<rparr>)"
    unfolding tableau_over_def list_all_length
    using ax az p' q by (simp add: x' z' len)
  assume r: "r < 2 * n"
  have px: "paulis_of (row_mult_left (tab u) ra rw c) rw =
              dmul_paulis (paulis_of (tab u) ra) (paulis_of (tab u) rw)"
    using assms(3) len ra rw
    by (simp add: paulis_of_def row_mult_left_def row_mult_rows_def Let_def paulis_xor)
  have sg: "sign_of (row_mult_left (tab u) ra rw c) rw =
              signed (c * sign_of (tab u) ra * sign_of (tab u) rw *
                      dmul_coeff (paulis_of (tab u) ra) (paulis_of (tab u) rw))"
    using assms(3) len
    by (simp add: sign_of_def row_mult_left_def row_mult_rows_def Let_def signed_def
          dmul_coeff_def paulis_of_def)
  have other: "r \<noteq> rw \<Longrightarrow> drow_of (u\<lparr>tab := row_mult_left (tab u) ra rw c\<rparr>) r = drow_of u r"
    by (simp add: drow_of_def paulis_of_def sign_of_def row_mult_left_def row_mult_rows_def Let_def)
  show "drow_of (u\<lparr>tab := row_mult_left (tab u) ra rw c\<rparr>) r =
           (if r = rw
            then (dmul_paulis (paulis_of (tab u) ra) (paulis_of (tab u) rw),
                  signed (c * sign_of (tab u) ra * sign_of (tab u) rw *
                          dmul_coeff (paulis_of (tab u) ra) (paulis_of (tab u) rw)))
            else drow_of u r)"
    using px sg other by (simp add: drow_of_def)
qed

lemma Sdg_tableau_rows:
  assumes q: "q < n"
  shows "tableau_over n (Sdg_tableau n q)"
    and "r < 2 * n \<Longrightarrow> drow_of (Sdg_tableau n q) r =
           (if r = q then (unit_row n q Pauli_Y, - 1) else drow_of (id_tab n) r)"
proof -
  let ?X = "\<lambda>k. if k = q then (on_qubits n [q] Pauli_Y, - 1::complex)
                 else (on_qubits n [k] Pauli_X, 1)"
  let ?Z = "\<lambda>k. (on_qubits n [k] Pauli_Z, 1::complex)"
  have X: "length (fst (?X k)) = n \<and> (snd (?X k) = 1 \<or> snd (?X k) = - 1)" for k by simp
  have Z: "length (fst (?Z k)) = n \<and> (snd (?Z k) = 1 \<or> snd (?Z k) = - 1)" for k by simp
  note rows = images_rows [of n ?X ?Z, OF X Z, folded Sdg_tableau_def]
  show "tableau_over n (Sdg_tableau n q)" by (rule rows(1))
  assume "r < 2 * n"
  then show "drow_of (Sdg_tableau n q) r =
           (if r = q then (unit_row n q Pauli_Y, - 1) else drow_of (id_tab n) r)"
  proof (cases rule: row_cases)
    case X
    then show ?thesis
      using rows(2) [OF X] q by (simp add: id_tab_drows on_qubits_single)
  next
    case (Z k)
    then show ?thesis
      using rows(3) [OF Z(1)] q by (simp add: id_tab_drows on_qubits_single)
  qed
qed

lemma Vdg_tableau_rows:
  assumes q: "q < n"
  shows "tableau_over n (Vdg_tableau n q)"
    and "r < 2 * n \<Longrightarrow> drow_of (Vdg_tableau n q) r =
           (if r = q + n then (unit_row n q Pauli_Y, 1) else drow_of (id_tab n) r)"
proof -
  let ?X = "\<lambda>k. (on_qubits n [k] Pauli_X, 1::complex)"
  let ?Z = "\<lambda>k. if k = q then (on_qubits n [q] Pauli_Y, 1::complex)
                 else (on_qubits n [k] Pauli_Z, 1)"
  have X: "length (fst (?X k)) = n \<and> (snd (?X k) = 1 \<or> snd (?X k) = - 1)" for k by simp
  have Z: "length (fst (?Z k)) = n \<and> (snd (?Z k) = 1 \<or> snd (?Z k) = - 1)" for k by simp
  note rows = images_rows [of n ?X ?Z, OF X Z, folded Vdg_tableau_def]
  show "tableau_over n (Vdg_tableau n q)" by (rule rows(1))
  assume "r < 2 * n"
  then show "drow_of (Vdg_tableau n q) r =
           (if r = q + n then (unit_row n q Pauli_Y, 1) else drow_of (id_tab n) r)"
  proof (cases rule: row_cases)
    case X
    then show ?thesis
      using rows(2) [OF X] q by (simp add: id_tab_drows on_qubits_single)
  next
    case (Z k)
    then show ?thesis
      using rows(3) [OF Z(1)] q by (simp add: id_tab_drows on_qubits_single)
  qed
qed

lemma S_at_front_left_compose:
  assumes t: "tableau_over n t" and sym: "is_symplectic n (tab t)" and q: "q < n"
  shows "compose (Sdg_tableau n q) t = Inr (t\<lparr>tab := row_mult_left (tab t) (q + n) q \<i>\<rparr>)"
proof (rule compose_eqI [where n = n])
  let ?g = "Sdg_tableau n q"
  let ?t' = "t\<lparr>tab := row_mult_left (tab t) (q + n) q \<i>\<rparr>"
  show "tableau_over n ?g" using q by (rule Sdg_tableau_rows(1))
  show "tableau_over n t" by (rule t)
  show "tableau_over n ?t'" using t q by (intro row_mult_left_over(1)) simp_all
  fix r assume r: "r < 2 * n"
  note g = Sdg_tableau_rows(2) [OF q r]
  have t': "drow_of ?t' r =
      (if r = q
       then (dmul_paulis (paulis_of (tab t) (q + n)) (paulis_of (tab t) q),
             signed (\<i> * sign_of (tab t) (q + n) * sign_of (tab t) q *
                     dmul_coeff (paulis_of (tab t) (q + n)) (paulis_of (tab t) q)))
       else drow_of t r)"
    using row_mult_left_over(2) [OF t, of "q + n" q r \<i>] q r by simp
  show "crow ?g t n r = drow_of ?t' r"
  proof (cases "r = q")
    case False
    with g t' crow_same_row [OF t r, of ?g] show ?thesis by simp
  next
    case True
    let ?d = "dmul_coeff (paulis_of (tab t) q) (paulis_of (tab t) (q + n))"
    have "odd (anti_count (paulis_of (tab t) q) (paulis_of (tab t) (q + n)))"
      using symplectic_rows(1) [OF t sym q q] by simp
    then have d: "?d = \<i> \<or> ?d = - \<i>"
      using dmul_coeff_class [of "paulis_of (tab t) q" "paulis_of (tab t) (q + n)"] by simp
    have c: "dmul_coeff (paulis_of (tab t) (q + n)) (paulis_of (tab t) q) = cnj ?d"
      by (rule dmul_coeff_cnj)
    have "crow ?g t n q =
           (dmul_paulis (paulis_of (tab t) q) (paulis_of (tab t) (q + n)),
            - 1 * sign_of (tab t) q * sign_of (tab t) (q + n) * ?d * \<i>)"
      using g True by (intro crow_Y_row [OF t q]) simp
    moreover have "signed (\<i> * sign_of (tab t) (q + n) * sign_of (tab t) q * cnj ?d) =
        - 1 * sign_of (tab t) q * sign_of (tab t) (q + n) * ?d * \<i>"
      using imag_times_i [OF d sign_of_real sign_of_real] by blast
    ultimately show ?thesis
      using True t' c dmul_paulis_commute [of "paulis_of (tab t) q"] by simp
  qed
qed

lemma V_at_front_left_compose:
  assumes t: "tableau_over n t" and sym: "is_symplectic n (tab t)" and q: "q < n"
  shows "compose (Vdg_tableau n q) t = Inr (t\<lparr>tab := row_mult_left (tab t) q (q + n) \<i>\<rparr>)"
proof (rule compose_eqI [where n = n])
  let ?g = "Vdg_tableau n q"
  let ?t' = "t\<lparr>tab := row_mult_left (tab t) q (q + n) \<i>\<rparr>"
  show "tableau_over n ?g" using q by (rule Vdg_tableau_rows(1))
  show "tableau_over n t" by (rule t)
  show "tableau_over n ?t'" using t q by (intro row_mult_left_over(1)) simp_all
  fix r assume r: "r < 2 * n"
  note g = Vdg_tableau_rows(2) [OF q r]
  have t': "drow_of ?t' r =
      (if r = q + n
       then (dmul_paulis (paulis_of (tab t) q) (paulis_of (tab t) (q + n)),
             signed (\<i> * sign_of (tab t) q * sign_of (tab t) (q + n) *
                     dmul_coeff (paulis_of (tab t) q) (paulis_of (tab t) (q + n))))
       else drow_of t r)"
    using row_mult_left_over(2) [OF t, of q "q + n" r \<i>] q r by simp
  show "crow ?g t n r = drow_of ?t' r"
  proof (cases "r = q + n")
    case False
    with g t' crow_same_row [OF t r, of ?g] show ?thesis by simp
  next
    case True
    let ?d = "dmul_coeff (paulis_of (tab t) q) (paulis_of (tab t) (q + n))"
    have "odd (anti_count (paulis_of (tab t) q) (paulis_of (tab t) (q + n)))"
      using symplectic_rows(1) [OF t sym q q] by simp
    then have d: "?d = \<i> \<or> ?d = - \<i>"
      using dmul_coeff_class [of "paulis_of (tab t) q" "paulis_of (tab t) (q + n)"] by simp
    have "crow ?g t n (q + n) =
           (dmul_paulis (paulis_of (tab t) q) (paulis_of (tab t) (q + n)),
            1 * sign_of (tab t) q * sign_of (tab t) (q + n) * ?d * \<i>)"
      using g True by (intro crow_Y_row [OF t q]) simp
    moreover have "signed (\<i> * sign_of (tab t) q * sign_of (tab t) (q + n) * ?d) =
        1 * sign_of (tab t) q * sign_of (tab t) (q + n) * ?d * \<i>"
      using imag_times_i [OF d sign_of_real sign_of_real] by blast
    ultimately show ?thesis
      using True t' by simp
  qed
qed

lemma CX_rows_left:
  assumes u: "tableau_over n u" and c: "c < n" and tg: "tg < n" and ne: "c \<noteq> tg"
  shows "tableau_over n (u\<lparr>tab := row_mult_left (row_mult_left (tab u) tg c 1) (c + n) (tg + n) 1\<rparr>)"
    and "r < 2 * n \<Longrightarrow>
         drow_of (u\<lparr>tab := row_mult_left (row_mult_left (tab u) tg c 1) (c + n) (tg + n) 1\<rparr>) r =
           (if r = c
            then (dmul_paulis (paulis_of (tab u) tg) (paulis_of (tab u) c),
                  signed (sign_of (tab u) tg * sign_of (tab u) c *
                          dmul_coeff (paulis_of (tab u) tg) (paulis_of (tab u) c)))
            else if r = tg + n
            then (dmul_paulis (paulis_of (tab u) (c + n)) (paulis_of (tab u) (tg + n)),
                  signed (sign_of (tab u) (c + n) * sign_of (tab u) (tg + n) *
                          dmul_coeff (paulis_of (tab u) (c + n)) (paulis_of (tab u) (tg + n))))
            else drow_of u r)"
proof -
  let ?u1 = "u\<lparr>tab := row_mult_left (tab u) tg c 1\<rparr>"
  let ?u2 = "?u1\<lparr>tab := row_mult_left (tab ?u1) (c + n) (tg + n) 1\<rparr>"
  have e: "u\<lparr>tab := row_mult_left (row_mult_left (tab u) tg c 1) (c + n) (tg + n) 1\<rparr> = ?u2" by simp
  have u1: "tableau_over n ?u1" using u c tg by (intro row_mult_left_over(1)) simp_all
  have r1: "drow_of ?u1 r =
      (if r = c
       then (dmul_paulis (paulis_of (tab u) tg) (paulis_of (tab u) c),
             signed (1 * sign_of (tab u) tg * sign_of (tab u) c *
                     dmul_coeff (paulis_of (tab u) tg) (paulis_of (tab u) c)))
       else drow_of u r)" if "r < 2 * n" for r
    using row_mult_left_over(2) [OF u, of tg c r 1] c tg that by simp
  have k: "drow_of ?u1 (c + n) = drow_of u (c + n)" "drow_of ?u1 (tg + n) = drow_of u (tg + n)"
    using r1 [of "c + n"] r1 [of "tg + n"] c tg by simp_all
  then have k': "paulis_of (tab ?u1) (c + n) = paulis_of (tab u) (c + n)"
    "paulis_of (tab ?u1) (tg + n) = paulis_of (tab u) (tg + n)"
    "sign_of (tab ?u1) (c + n) = sign_of (tab u) (c + n)"
    "sign_of (tab ?u1) (tg + n) = sign_of (tab u) (tg + n)"
    by (simp_all add: drow_of_def)
  show "tableau_over n (u\<lparr>tab := row_mult_left (row_mult_left (tab u) tg c 1) (c + n) (tg + n) 1\<rparr>)"
    using row_mult_left_over(1) [OF u1, of "c + n" "tg + n" 1] c tg by simp
  assume r: "r < 2 * n"
  have r2: "drow_of ?u2 r =
      (if r = tg + n
       then (dmul_paulis (paulis_of (tab ?u1) (c + n)) (paulis_of (tab ?u1) (tg + n)),
             signed (1 * sign_of (tab ?u1) (c + n) * sign_of (tab ?u1) (tg + n) *
                     dmul_coeff (paulis_of (tab ?u1) (c + n)) (paulis_of (tab ?u1) (tg + n))))
       else drow_of ?u1 r)"
    using row_mult_left_over(2) [OF u1, of "c + n" "tg + n" r 1] c tg r by simp
  show "drow_of (u\<lparr>tab := row_mult_left (row_mult_left (tab u) tg c 1) (c + n) (tg + n) 1\<rparr>) r =
           (if r = c
            then (dmul_paulis (paulis_of (tab u) tg) (paulis_of (tab u) c),
                  signed (sign_of (tab u) tg * sign_of (tab u) c *
                          dmul_coeff (paulis_of (tab u) tg) (paulis_of (tab u) c)))
            else if r = tg + n
            then (dmul_paulis (paulis_of (tab u) (c + n)) (paulis_of (tab u) (tg + n)),
                  signed (sign_of (tab u) (c + n) * sign_of (tab u) (tg + n) *
                          dmul_coeff (paulis_of (tab u) (c + n)) (paulis_of (tab u) (tg + n))))
            else drow_of u r)"
  proof (cases "r = c")
    case True
    then have "r \<noteq> tg + n" using c by simp
    with r2 have "drow_of ?u2 r = drow_of ?u1 r" by simp
    also have "\<dots> = (dmul_paulis (paulis_of (tab u) tg) (paulis_of (tab u) c),
             signed (1 * sign_of (tab u) tg * sign_of (tab u) c *
                     dmul_coeff (paulis_of (tab u) tg) (paulis_of (tab u) c)))"
      using r1 [OF r] True by simp
    finally show ?thesis using True unfolding e by simp
  next
    case False
    show ?thesis
    proof (cases "r = tg + n")
      case True
      with r2 have "drow_of ?u2 r =
        (dmul_paulis (paulis_of (tab ?u1) (c + n)) (paulis_of (tab ?u1) (tg + n)),
             signed (1 * sign_of (tab ?u1) (c + n) * sign_of (tab ?u1) (tg + n) *
                     dmul_coeff (paulis_of (tab ?u1) (c + n)) (paulis_of (tab ?u1) (tg + n))))"
        by simp
      then show ?thesis using True False unfolding e k' by simp
    next
      case ne2: False
      with r2 have "drow_of ?u2 r = drow_of ?u1 r" by simp
      also have "\<dots> = drow_of u r" using r1 [OF r] False by simp
      finally show ?thesis using False ne2 unfolding e by simp
    qed
  qed
qed

lemma CX_at_front_left_compose:
  assumes t: "tableau_over n t" and sym: "is_symplectic n (tab t)"
    and c: "c < n" and tg: "tg < n" and ne: "c \<noteq> tg"
  shows "compose (CX_tableau n c tg) t =
         Inr (t\<lparr>tab := row_mult_left (row_mult_left (tab t) tg c 1) (c + n) (tg + n) 1\<rparr>)"
proof (rule compose_eqI [where n = n])
  let ?g = "CX_tableau n c tg"
  let ?t' = "t\<lparr>tab := row_mult_left (row_mult_left (tab t) tg c 1) (c + n) (tg + n) 1\<rparr>"
  show "tableau_over n ?g" using c tg by (rule CX_tableau_rows(1))
  show "tableau_over n t" by (rule t)
  show "tableau_over n ?t'" using t c tg ne by (rule CX_rows_left(1))
  fix r assume r: "r < 2 * n"
  note gr = CX_tableau_rows(2) [OF c tg r]
  have gc: "drow_of ?g c =
      (map (\<lambda>k. if k = c \<or> k = tg then Pauli_X else Pauli_I) [0..<n], 1)"
    using CX_tableau_rows(2) [OF c tg, of c] c by simp
  have gt: "drow_of ?g (tg + n) =
      (map (\<lambda>k. if k = c \<or> k = tg then Pauli_Z else Pauli_I) [0..<n], 1)"
    using CX_tableau_rows(2) [OF c tg, of "tg + n"] c tg by simp
  note tr = CX_rows_left(2) [OF t c tg ne r]
  show "crow ?g t n r = drow_of ?t' r"
  proof (cases "r = c")
    case True
    let ?pc = "paulis_of (tab t) c" and ?pt = "paulis_of (tab t) tg"
    let ?sc = "sign_of (tab t) c" and ?st = "sign_of (tab t) tg"
    have ev: "even (anti_count ?pt ?pc)" using symplectic_rows(2) [OF t sym tg c] .
    note rp = real_pair [OF ev sign_of_real [of "tab t" tg] sign_of_real [of "tab t" c]]
    have target: "drow_of ?t' r = (dmul_paulis ?pt ?pc, ?st * ?sc * dmul_coeff ?pt ?pc)"
      using tr True rp(1) by simp
    show ?thesis
    proof (cases "c < tg")
      case lt: True
      have "crow ?g t n c = (dmul_paulis ?pc ?pt, 1 * ?sc * ?st * dmul_coeff ?pc ?pt)"
        using t lt tg by (rule crow_XX_row) (rule gc)
      then show ?thesis
        using True target rp(2) dmul_paulis_commute [of ?pc ?pt] by simp
    next
      case False
      with ne have lt: "tg < c" by simp
      have "crow ?g t n c = (dmul_paulis ?pt ?pc, 1 * ?st * ?sc * dmul_coeff ?pt ?pc)"
        using t lt c
        by (rule crow_XX_row)
          (simp add: gc two_cells_commute [of tg c])
      then show ?thesis using True target by simp
    qed
  next
    case nc: False
    show ?thesis
    proof (cases "r = tg + n")
      case True
      let ?pc = "paulis_of (tab t) (c + n)" and ?pt = "paulis_of (tab t) (tg + n)"
      let ?sc = "sign_of (tab t) (c + n)" and ?st = "sign_of (tab t) (tg + n)"
      have ev: "even (anti_count ?pc ?pt)" using symplectic_rows(3) [OF t sym c tg] .
      note rp = real_pair [OF ev sign_of_real [of "tab t" "c + n"] sign_of_real [of "tab t" "tg + n"]]
      have target: "drow_of ?t' r = (dmul_paulis ?pc ?pt, ?sc * ?st * dmul_coeff ?pc ?pt)"
        using tr True nc rp(1) by simp
      show ?thesis
      proof (cases "c < tg")
        case lt: True
        have "crow ?g t n (tg + n) = (dmul_paulis ?pc ?pt, 1 * ?sc * ?st * dmul_coeff ?pc ?pt)"
          using t lt tg by (rule crow_ZZ_row) (rule gt)
        then show ?thesis using True target by simp
      next
        case False
        with ne have lt: "tg < c" by simp
        have "crow ?g t n (tg + n) = (dmul_paulis ?pt ?pc, 1 * ?st * ?sc * dmul_coeff ?pt ?pc)"
          using t lt c
          by (rule crow_ZZ_row)
            (simp add: gt two_cells_commute [of tg c])
        then show ?thesis
          using True target rp(2) dmul_paulis_commute [of ?pc ?pt] by simp
      qed
    next
      case False
      with nc gr tr crow_same_row [OF t r, of ?g] show ?thesis by simp
    qed
  qed
qed

lemma at_front_factors_exchanged:
  assumes "tableau_over n t" and "is_symplectic n (tab t)"
  shows "q < n \<Longrightarrow> apply_S_at_front row_mult_left (Qubit q) t = compose (Sdg_tableau n q) t"
    and "q < n \<Longrightarrow> apply_V_at_front row_mult_left (Qubit q) t = compose (Vdg_tableau n q) t"
    and "c < n \<Longrightarrow> tg < n \<Longrightarrow> c \<noteq> tg \<Longrightarrow>
         apply_CX_at_front row_mult_left (Qubit c) (Qubit tg) t = compose (CX_tableau n c tg) t"
proof -
  show "apply_S_at_front row_mult_left (Qubit q) t = compose (Sdg_tableau n q) t" if q: "q < n"
    using S_at_front_left_compose [OF assms q] apply_S_at_front_over [OF assms(1) q]
    by simp
  show "apply_V_at_front row_mult_left (Qubit q) t = compose (Vdg_tableau n q) t" if q: "q < n"
    using V_at_front_left_compose [OF assms q] apply_V_at_front_over [OF assms(1) q]
    by simp
  show "apply_CX_at_front row_mult_left (Qubit c) (Qubit tg) t = compose (CX_tableau n c tg) t"
    if "c < n" "tg < n" "c \<noteq> tg"
    using CX_at_front_left_compose [OF assms that] apply_CX_at_front_over [OF assms(1) that(1,2)]
    by simp
qed

section \<open>The six-argument constructor\<close>

lemma UnitaryTableau_mats_zmat:
  assumes "UnitaryTableau_mats xx xz xph zx zz zph = Inr u"
  shows "zmat (tab u) = zx @ zz \<and> xmat (tab u) = xx @ zx \<and> phase (tab u) = xph @ zph"
  using assms
  by (auto simp: UnitaryTableau_mats_def SymplecticTableau_mats_def and_then_def Let_def
           split: if_splits)

text \<open>
  C1. The claim: for equally-sized square inputs the constructor stores \<open>xx\<close> above \<open>zx\<close>
  as \<open>xmat\<close>, \<open>xz\<close> above \<open>zz\<close> as \<open>zmat\<close> and \<open>xph\<close> above \<open>zph\<close> as \<open>phase\<close>. On one
  qubit, with \<open>xx = (1)\<close>, \<open>xz = (1)\<close>, \<open>zx = (0)\<close>, \<open>zz = (1)\<close> and zero phases, the
  constructor returns a tableau whose \<open>zmat\<close> is \<open>zx\<close> above \<open>zz\<close>, that is (0, 1), and not
  \<open>xz\<close> above \<open>zz\<close>, which is (1, 1): the argument \<open>xz\<close> is size-checked and then dropped.
\<close>

theorem UnitaryTableau_mats_drops_xz:
  "UnitaryTableau_mats [[True]] [[True]] [False] [[False]] [[True]] [False] =
     Inr \<lparr>tab = \<lparr>xmat = [[True], [False]], zmat = [[False], [True]],
                phase = [False, False]\<rparr>,
          qubits = [(Qubit 0, 0)]\<rparr>
   \<and> [[False], [True]] \<noteq> [[True]] @ [[True]]"
  by (simp add: UnitaryTableau_mats_def SymplecticTableau_mats_def and_then_def Let_def
        rows_def cols_def default_qubits_def bimap_insert_def)

theorem UnitaryTableau_mats_drops_xz_witness:
  "map_sum id (\<lambda>u. zmat (tab u))
     (UnitaryTableau_mats [[True]] [[True]] [False] [[False]] [[True]] [False]) =
   Inr [[False], [True]]"
  using UnitaryTableau_mats_drops_xz by simp

section \<open>Gates that are not Clifford gates\<close>

lemma apply_gate_at_front_default:
  assumes "type \<notin> set front_cases"
  shows "apply_gate_at_front nm rm type qbs u =
           Inl (NotValid (nm type @
             '' cannot be applied to a UnitaryTableau; it is not a Clifford gate''))"
  using assms
  by (cases type) (simp_all add: apply_gate_at_front_def front_cases_def)

text \<open>
  C2, as the code has it. Every gate type that is not a Clifford gate falls to the
  \<^verbatim>\<open>default\<close> branch of the switch, whatever the tableau and the qubits: the branch
  throws the exception \<open>NotValid\<close>, the class that the constructors throw for malformed
  matrices, with a message that names the gate. \<open>is_clifford\<close> is the predicate of the
  gate catalog, which is not among the sources: all that is used of it is that the
  fourteen types the switch has a case for are Clifford gates.
\<close>

theorem apply_gate_at_front_not_clifford:
  assumes "\<forall>g \<in> set front_cases. is_clifford g" and "\<not> is_clifford type"
  shows "apply_gate_at_front nm rm type qbs u =
           Inl (NotValid (nm type @
             '' cannot be applied to a UnitaryTableau; it is not a Clifford gate''))"
proof -
  from assms have "type \<notin> set front_cases" by blast
  then show ?thesis by (rule apply_gate_at_front_default)
qed

theorem apply_gate_at_front_not_clifford_witness:
  "OpType_T \<notin> set front_cases \<and>
   apply_gate_at_front optypeinfo_name row_mult OpType_T [Qubit 0]
       \<lparr>tab = \<lparr>xmat = [[True], [False]], zmat = [[False], [True]],
                  phase = [False, False]\<rparr>,
            qubits = [(Qubit 0, 0)]\<rparr> =
     Inl (NotValid ''T cannot be applied to a UnitaryTableau; it is not a Clifford gate'')"
proof -
  have a: "\<forall>g \<in> set front_cases. g \<in> set front_cases" by simp
  have b: "\<not> OpType_T \<in> set front_cases" by (simp add: front_cases_def)
  show ?thesis
    using b
      apply_gate_at_front_not_clifford
        [of "\<lambda>g. g \<in> set front_cases" OpType_T optypeinfo_name row_mult "[Qubit 0]", OF a b]
    by (simp add: optypeinfo_name_def)
qed

text \<open>
  C2, as the claim states it, fails: the T gate at the front of the identity tableau on
  one qubit fails with \<open>NotValid\<close>, not with an error of kind \<open>NotCliffordGate\<close>.
\<close>

theorem apply_gate_at_front_T_counterexample:
  "apply_gate_at_front optypeinfo_name row_mult OpType_T [Qubit 0]
       \<lparr>tab = \<lparr>xmat = [[True], [False]], zmat = [[False], [True]],
                  phase = [False, False]\<rparr>,
            qubits = [(Qubit 0, 0)]\<rparr> \<noteq> Inl NotCliffordGate"
  by (simp add: apply_gate_at_front_def optypeinfo_name_def)

section \<open>The identity tableau\<close>

text \<open>
  C10. For every \<open>n\<close> the constructor \<^verbatim>\<open>UnitaryTableau(n)\<close> returns a tableau: \<open>xmat\<close> is
  the identity above the zero matrix, \<open>zmat\<close> the zero matrix above the identity, every
  phase bit is zero, and \<^verbatim>\<open>Qubit(i)\<close> is bound to row \<open>i\<close> for \<open>i < n\<close>. The tableau is
  symplectic, and it is a left and a right identity of \<^verbatim>\<open>compose\<close> among the symplectic
  tableaux over the same qubits: composing it with such a tableau \<open>t\<close>, on either side,
  returns \<open>t\<close>.
\<close>

theorem UnitaryTableau_n_identity:
  "\<exists>u. UnitaryTableau_n n = Inr u \<and>
        xmat (tab u) = MatrixXb_Identity n n @ MatrixXb_Zero n n \<and>
        zmat (tab u) = MatrixXb_Zero n n @ MatrixXb_Identity n n \<and>
        phase (tab u) = replicate (2 * n) False \<and>
        qubits u = map (\<lambda>i. (Qubit i, i)) [0..<n] \<and>
        is_symplectic n (tab u) \<and>
        (\<forall>t. tableau_over n t \<and> is_symplectic n (tab t) \<longrightarrow>
             compose u t = Inr t \<and> compose t u = Inr t)"
proof (intro exI conjI allI impI)
  show "UnitaryTableau_n n = Inr (id_tab n)" by (rule UnitaryTableau_n_eq)
  show "xmat (tab (id_tab n)) = MatrixXb_Identity n n @ MatrixXb_Zero n n"
    by (simp add: id_tab_def)
  show "zmat (tab (id_tab n)) = MatrixXb_Zero n n @ MatrixXb_Identity n n"
    by (simp add: id_tab_def)
  show "phase (tab (id_tab n)) = replicate (2 * n) False"
    by (simp add: id_tab_def VectorXb_Zero_def)
  show "qubits (id_tab n) = map (\<lambda>i. (Qubit i, i)) [0..<n]"
    by (simp add: id_tab_def default_qubits_eq)
  show "is_symplectic n (tab (id_tab n))" by (rule id_tab_symplectic)
next
  fix t assume "tableau_over n t \<and> is_symplectic n (tab t)"
  then show "compose (id_tab n) t = Inr t" by (intro compose_id_left) simp
next
  fix t assume "tableau_over n t \<and> is_symplectic n (tab t)"
  then show "compose t (id_tab n) = Inr t" by (intro compose_id_right) simp
qed

theorem UnitaryTableau_n_identity_witness:
  "UnitaryTableau_n 1 =
     Inr \<lparr>tab = \<lparr>xmat = [[True], [False]], zmat = [[False], [True]],
                 phase = [False, False]\<rparr>,
          qubits = [(Qubit 0, 0)]\<rparr> \<and>
   tableau_over 1
     \<lparr>tab = \<lparr>xmat = [[True], [False]], zmat = [[True], [True]], phase = [True, False]\<rparr>,
      qubits = [(Qubit 0, 0)]\<rparr> \<and>
   is_symplectic 1
     \<lparr>xmat = [[True], [False]], zmat = [[True], [True]], phase = [True, False]\<rparr> \<and>
   compose
     \<lparr>tab = \<lparr>xmat = [[True], [False]], zmat = [[False], [True]], phase = [False, False]\<rparr>,
      qubits = [(Qubit 0, 0)]\<rparr>
     \<lparr>tab = \<lparr>xmat = [[True], [False]], zmat = [[True], [True]], phase = [True, False]\<rparr>,
      qubits = [(Qubit 0, 0)]\<rparr> =
   Inr \<lparr>tab = \<lparr>xmat = [[True], [False]], zmat = [[True], [True]], phase = [True, False]\<rparr>,
        qubits = [(Qubit 0, 0)]\<rparr> \<and>
   compose
     \<lparr>tab = \<lparr>xmat = [[True], [False]], zmat = [[True], [True]], phase = [True, False]\<rparr>,
      qubits = [(Qubit 0, 0)]\<rparr>
     \<lparr>tab = \<lparr>xmat = [[True], [False]], zmat = [[False], [True]], phase = [False, False]\<rparr>,
      qubits = [(Qubit 0, 0)]\<rparr> =
   Inr \<lparr>tab = \<lparr>xmat = [[True], [False]], zmat = [[True], [True]], phase = [True, False]\<rparr>,
        qubits = [(Qubit 0, 0)]\<rparr>"
proof -
  let ?i = "\<lparr>tab = \<lparr>xmat = [[True], [False]], zmat = [[False], [True]],
                      phase = [False, False]\<rparr>,
               qubits = [(Qubit 0, 0)]\<rparr>"
  let ?t = "\<lparr>tab = \<lparr>xmat = [[True], [False]], zmat = [[True], [True]],
                      phase = [True, False]\<rparr>,
               qubits = [(Qubit 0, 0)]\<rparr>"
  from UnitaryTableau_n_identity [of 1] obtain u where
    u: "UnitaryTableau_n 1 = Inr u"
    and c: "\<forall>t. tableau_over 1 t \<and> is_symplectic 1 (tab t) \<longrightarrow>
                compose u t = Inr t \<and> compose t u = Inr t"
    by blast
  have i: "UnitaryTableau_n 1 = Inr ?i"
    by (simp add: UnitaryTableau_n_def SymplecticTableau_mats_def and_then_def rows_def
          cols_def MatrixXb_Identity_def MatrixXb_Zero_def VectorXb_Zero_def
          default_qubits_def bimap_insert_def numeral_2_eq_2)
  with u have ui: "u = ?i" by simp
  have t: "tableau_over 1 ?t"
    by (simp add: tableau_over_def default_qubits_def bimap_insert_def)
  have s: "is_symplectic 1 (tab ?t)"
    by (simp add: is_symplectic_def symplectic_form_def dot2_def)
  from c t s have "compose u ?t = Inr ?t \<and> compose ?t u = Inr ?t" by blast
  with i t s show ?thesis unfolding ui by simp
qed

section \<open>Gates at the front are pre-composition\<close>



section \<open>The CCX pass on a single CCX gate\<close>

text \<open>
  C5. On the circuit of three qubits that holds a single CCX gate on the wires 0, 1, 2,
  the pass with a template of 15 gates over H, T, Tdg and CX succeeds and returns true;
  the circuit it leaves has 15 gates, 21 vertices and 3 qubits, and each of its gates is
  one of H, T, Tdg, CX.
\<close>

theorem decomp_CCX_single:
  assumes "length template = 15" and "\<forall>g \<in> set template. fst g \<in> CCX_gate_set"
  shows "\<exists>c'. decomp_CCX template (add_op OpType_CCX [] [0, 1, 2] (Circuit_n 3)) = Inr (True, c') \<and>
              n_gates c' = 15 \<and> n_vertices c' = 21 \<and> n_qubits c' = 3 \<and>
              (\<forall>g \<in> set (commands c'). fst g \<in> CCX_gate_set)"
proof -
  let ?c' = "\<lparr>n_qubits = 3, n_bits = 0, commands = place template [0, 1, 2]\<rparr>"
  have "decomp_CCX template (add_op OpType_CCX [] [0, 1, 2] (Circuit_n 3)) = Inr (True, ?c')"
    by (simp add: decomp_CCX_def add_op_def Circuit_n_def and_then_def)
  moreover have "n_gates ?c' = 15" "n_vertices ?c' = 21" "n_qubits ?c' = 3"
    using assms(1) by (simp_all add: n_gates_def n_vertices_def place_def)
  moreover have "\<forall>g \<in> set (commands ?c'). fst g \<in> CCX_gate_set"
    using assms(2) by (auto simp: place_def)
  ultimately show ?thesis by blast
qed

theorem decomp_CCX_single_witness:
  "length CCX_normal_decomp = 15 \<and>
   decomp_CCX CCX_normal_decomp (add_op OpType_CCX [] [0, 1, 2] (Circuit_n 3)) =
     Inr (True, \<lparr>n_qubits = 3, n_bits = 0, commands = CCX_normal_decomp\<rparr>) \<and>
   n_gates \<lparr>n_qubits = 3, n_bits = 0, commands = CCX_normal_decomp\<rparr> = 15 \<and>
   n_vertices \<lparr>n_qubits = 3, n_bits = 0, commands = CCX_normal_decomp\<rparr> = 21"
proof -
  have a: "length CCX_normal_decomp = 15" by (simp add: CCX_normal_decomp_def)
  have b: "\<forall>g \<in> set CCX_normal_decomp. fst g \<in> CCX_gate_set"
    by (simp add: CCX_normal_decomp_def CCX_gate_set_def)
  have p: "place CCX_normal_decomp [0, Suc 0, 2] = CCX_normal_decomp"
    by (simp add: place_def CCX_normal_decomp_def)
  from decomp_CCX_single [OF a b] obtain c' where
    c: "decomp_CCX CCX_normal_decomp (add_op OpType_CCX [] [0, 1, 2] (Circuit_n 3)) =
          Inr (True, c')"
    and n: "n_gates c' = 15" "n_vertices c' = 21"
    by blast
  have "decomp_CCX CCX_normal_decomp (add_op OpType_CCX [] [0, 1, 2] (Circuit_n 3)) =
          Inr (True, \<lparr>n_qubits = 3, n_bits = 0, commands = CCX_normal_decomp\<rparr>)"
    by (simp add: decomp_CCX_def add_op_def Circuit_n_def and_then_def p)
  with c n a show ?thesis by simp
qed

end
